theory Spec2Isabelle
  imports Main "HOL-Library.Word" "HOL-Library.Char_ord" "HOL-Library.List_Lexorder"
begin

unbundle bit_operations_syntax

section \<open>Platform values\<close>

text \<open>
  The program is browser JavaScript. A byte of a \<open>Uint8Array\<close> is an \<open>8 word\<close>, an
  \<open>ArrayBuffer\<close> a list of bytes. A string is a \<open>char list\<close>: the model covers the
  strings whose code units are at most \<open>0xFF\<close>, which is all that \<open>String.fromCharCode\<close>
  on a \<open>Uint8Array\<close> and \<open>btoa\<close> ever produce.
  An exception is a value: \<open>Error msg\<close> for the program's own \<open>throw new Error(msg)\<close>,
  \<open>DOMException name\<close> for a rejection raised by the platform.
\<close>

type_synonym byte = "8 word"

datatype exn = Error string | DOMException string

subsection \<open>The platform's \<open>btoa\<close> and \<open>atob\<close>\<close>

text \<open>
  \<open>btoa\<close> and \<open>atob\<close> are browser built-ins (HTML standard: forgiving-base64 encode and
  decode). \<open>btoa\<close> writes three bytes as four characters of the alphabet and pads the
  last group with \<open>=\<close>. \<open>atob\<close> removes ASCII whitespace, removes one or two trailing
  \<open>=\<close> when the length is a multiple of four, fails when the remaining length is
  \<open>1\<close> modulo \<open>4\<close> or a character is outside the alphabet, and discards the
  left-over bits of the last group.
\<close>

definition b64_alphabet :: string where
  "b64_alphabet = ''ABCDEFGHIJKLMNOPQRSTUVWXYZabcdefghijklmnopqrstuvwxyz0123456789+/''"

definition b64_char :: "nat \<Rightarrow> char" where
  "b64_char n = b64_alphabet ! n"

fun index_of :: "'a \<Rightarrow> 'a list \<Rightarrow> nat option" where
  "index_of x [] = None"
| "index_of x (y # ys) = (if x = y then Some 0 else map_option Suc (index_of x ys))"

definition b64_index :: "char \<Rightarrow> nat option" where
  "b64_index c = index_of c b64_alphabet"

fun b64_encode :: "nat list \<Rightarrow> string" where
  "b64_encode (a # b # c # rest) =
     [b64_char (a div 4), b64_char ((a mod 4) * 16 + b div 16),
      b64_char ((b mod 16) * 4 + c div 64), b64_char (c mod 64)] @ b64_encode rest"
| "b64_encode [a, b] =
     [b64_char (a div 4), b64_char ((a mod 4) * 16 + b div 16),
      b64_char ((b mod 16) * 4), CHR ''='']"
| "b64_encode [a] =
     [b64_char (a div 4), b64_char ((a mod 4) * 16), CHR ''='', CHR ''='']"
| "b64_encode [] = []"

definition btoa :: "string \<Rightarrow> string" where
  "btoa s = b64_encode (map of_char s)"

definition ascii_whitespace :: "char \<Rightarrow> bool" where
  "ascii_whitespace c \<longleftrightarrow> c \<in> {CHR 0x09, CHR 0x0A, CHR 0x0C, CHR 0x0D, CHR 0x20}"

definition strip_padding :: "string \<Rightarrow> string" where
  "strip_padding d =
     (if length d mod 4 = 0 then
        (if 2 \<le> length d \<and> drop (length d - 2) d = ''=='' then take (length d - 2) d
         else if 1 \<le> length d \<and> drop (length d - 1) d = ''='' then take (length d - 1) d
         else d)
      else d)"

fun b64_decode :: "nat list \<Rightarrow> nat list" where
  "b64_decode (s1 # s2 # s3 # s4 # rest) =
     [s1 * 4 + s2 div 16, (s2 mod 16) * 16 + s3 div 4, (s3 mod 4) * 64 + s4] @ b64_decode rest"
| "b64_decode [s1, s2, s3] = [s1 * 4 + s2 div 16, (s2 mod 16) * 16 + s3 div 4]"
| "b64_decode [s1, s2] = [s1 * 4 + s2 div 16]"
| "b64_decode [s1] = []"
| "b64_decode [] = []"

definition atob :: "string \<Rightarrow> exn + string" where
  "atob data =
     (let d = strip_padding (filter (\<lambda>c. \<not> ascii_whitespace c) data) in
      if length d mod 4 = 1 then Inl (DOMException ''InvalidCharacterError'')
      else case those (map b64_index d) of
             None \<Rightarrow> Inl (DOMException ''InvalidCharacterError'')
           | Some ss \<Rightarrow> Inr (map char_of (b64_decode ss)))"

section \<open>crypto-helper.js: encoding utilities\<close>

definition chunkSize :: nat where
  "chunkSize = 0x8000"

definition subarray :: "byte list \<Rightarrow> nat \<Rightarrow> nat \<Rightarrow> byte list" where
  "subarray bytes b e = take (e - b) (drop b bytes)"

definition fromCharCode_apply :: "byte list \<Rightarrow> string" where
  "fromCharCode_apply chunk = map (\<lambda>b. char_of (unat b)) chunk"

function ab2base64_loop :: "byte list \<Rightarrow> nat \<Rightarrow> string \<Rightarrow> string" where
  "ab2base64_loop bytes i binary =
     (if i < length bytes
      then ab2base64_loop bytes (i + chunkSize)
             (binary @ fromCharCode_apply (subarray bytes i (i + chunkSize)))
      else binary)"
  by pat_completeness auto
termination
  by (relation "measure (\<lambda>(bytes, i, binary). length bytes - i)") (auto simp: chunkSize_def)

declare ab2base64_loop.simps [simp del]

definition ab2base64 :: "byte list \<Rightarrow> string" where
  "ab2base64 buffer = btoa (ab2base64_loop buffer 0 [])"

text \<open>
  \<open>base642ab\<close>: \<open>bytes\<close> starts as \<open>len\<close> zero bytes and the loop stores
  \<open>binary.charCodeAt(i)\<close> at index \<open>i\<close> for \<open>i = 0 .. len - 1\<close>; a store into a
  \<open>Uint8Array\<close> keeps the low eight bits.
\<close>

definition charCodeAt :: "string \<Rightarrow> nat \<Rightarrow> nat" where
  "charCodeAt s i = of_char (s ! i)"

definition base642ab_loop :: "string \<Rightarrow> nat \<Rightarrow> byte list" where
  "base642ab_loop binary len =
     fold (\<lambda>i bytes. bytes[i := of_nat (charCodeAt binary i)]) [0..<len] (replicate len 0)"

definition base642ab :: "string \<Rightarrow> exn + byte list" where
  "base642ab base64 =
     (case atob base64 of
        Inl e \<Rightarrow> Inl e
      | Inr binary \<Rightarrow> Inr (base642ab_loop binary (length binary)))"

section \<open>JavaScript values and asynchronous functions\<close>

text \<open>
  The values the program tests dynamically (\<open>typeof\<close>, \<open>instanceof\<close>, truthiness, \<open>||\<close>,
  \<open>===\<close>) are kept as a datatype. Numbers are the integer-valued ones.
\<close>

datatype jsval =
  JUndefined | JNull | JBoolean bool | JNumber int | JString string | JArrayBuffer "byte list"

fun truthy :: "jsval \<Rightarrow> bool" where
  "truthy JUndefined = False"
| "truthy JNull = False"
| "truthy (JBoolean b) = b"
| "truthy (JNumber n) = (n \<noteq> 0)"
| "truthy (JString s) = (s \<noteq> [])"
| "truthy (JArrayBuffer b) = True"

definition js_or :: "jsval \<Rightarrow> jsval \<Rightarrow> jsval" where
  "js_or a b = (if truthy a then a else b)"

fun typeof_string :: "jsval \<Rightarrow> bool" where
  "typeof_string (JString s) = True"
| "typeof_string v = False"

text \<open>
  An \<open>async\<close> function is a state transformer that either resolves with a value or
  rejects with an exception; the state reached when it rejects is kept, as the effects
  of a JavaScript function that throws are. \<open>await m f\<close> runs \<open>f\<close> on the value of
  \<open>m\<close> and propagates a rejection; \<open>try_catch m h\<close> runs \<open>h\<close> on a rejection.
\<close>

type_synonym ('s, 'a) async = "'s \<Rightarrow> (exn + 'a) \<times> 's"

definition resolve :: "'a \<Rightarrow> ('s, 'a) async" where
  "resolve x = (\<lambda>s. (Inr x, s))"

definition throw :: "exn \<Rightarrow> ('s, 'a) async" where
  "throw e = (\<lambda>s. (Inl e, s))"

definition settle :: "exn + 'a \<Rightarrow> ('s, 'a) async" where
  "settle r = (\<lambda>s. (r, s))"

definition await :: "('s, 'a) async \<Rightarrow> ('a \<Rightarrow> ('s, 'b) async) \<Rightarrow> ('s, 'b) async" where
  "await m f = (\<lambda>s. case m s of (Inl e, s') \<Rightarrow> (Inl e, s') | (Inr x, s') \<Rightarrow> f x s')"

definition try_catch :: "('s, 'a) async \<Rightarrow> (exn \<Rightarrow> ('s, 'a) async) \<Rightarrow> ('s, 'a) async" where
  "try_catch m h = (\<lambda>s. case m s of (Inl e, s') \<Rightarrow> h e s' | (Inr x, s') \<Rightarrow> (Inr x, s'))"

subsection \<open>The platform's Web Crypto\<close>

text \<open>
  \<open>window.crypto.subtle\<close> is not part of the repository: its operations are parameters.
  \<open>'k\<close> is the type of \<open>CryptoKey\<close> handles. \<open>importKey\<close> stands for
  \<open>importKey('raw', keyData, {name: 'PBKDF2'}, false, ['deriveKey'])\<close>, \<open>deriveKey\<close> for
  PBKDF2 with SHA-256 to a 256-bit AES-GCM key (arguments: salt, iterations, base key),
  \<open>encrypt\<close> and \<open>decrypt\<close> for AES-GCM (arguments: iv, key, data), \<open>digest\<close> for
  SHA-256, which does not reject. Every call the program makes is appended to \<open>calls\<close>, so that the
  cryptographic work of a run can be read off the state. \<open>entropy\<close> is the stream
  \<open>crypto.getRandomValues\<close> draws from and \<open>now\<close> the clock.
\<close>

record 'k subtle =
  importKey :: "byte list \<Rightarrow> exn + 'k"
  deriveKey :: "byte list \<Rightarrow> jsval \<Rightarrow> 'k \<Rightarrow> exn + 'k"
  encrypt :: "byte list \<Rightarrow> 'k \<Rightarrow> byte list \<Rightarrow> exn + byte list"
  decrypt :: "byte list \<Rightarrow> 'k \<Rightarrow> byte list \<Rightarrow> exn + byte list"
  digest :: "byte list \<Rightarrow> byte list"

datatype call =
  ImportKey "byte list"
| DeriveKey "byte list" jsval
| Encrypt "byte list" "byte list"
| Decrypt "byte list" "byte list"
| Digest "byte list"

record world =
  entropy :: "nat \<Rightarrow> byte"
  calls :: "call list"
  now :: int

definition log_call :: "call \<Rightarrow> (world, unit) async" where
  "log_call c = (\<lambda>w. (Inr (), w\<lparr>calls := calls w @ [c]\<rparr>))"

definition subtle_importKey :: "'k subtle \<Rightarrow> byte list \<Rightarrow> (world, 'k) async" where
  "subtle_importKey env keyData =
     await (log_call (ImportKey keyData)) (\<lambda>_. settle (importKey env keyData))"

definition subtle_deriveKey :: "'k subtle \<Rightarrow> byte list \<Rightarrow> jsval \<Rightarrow> 'k \<Rightarrow> (world, 'k) async" where
  "subtle_deriveKey env salt' iterations' passKey =
     await (log_call (DeriveKey salt' iterations')) (\<lambda>_. settle (deriveKey env salt' iterations' passKey))"

definition subtle_encrypt :: "'k subtle \<Rightarrow> byte list \<Rightarrow> 'k \<Rightarrow> byte list \<Rightarrow> (world, byte list) async" where
  "subtle_encrypt env iv' key data =
     await (log_call (Encrypt iv' data)) (\<lambda>_. settle (encrypt env iv' key data))"

definition subtle_decrypt :: "'k subtle \<Rightarrow> byte list \<Rightarrow> 'k \<Rightarrow> byte list \<Rightarrow> (world, byte list) async" where
  "subtle_decrypt env iv' key data =
     await (log_call (Decrypt iv' data)) (\<lambda>_. settle (decrypt env iv' key data))"

definition subtle_digest :: "'k subtle \<Rightarrow> byte list \<Rightarrow> (world, byte list) async" where
  "subtle_digest env data =
     await (log_call (Digest data)) (\<lambda>_. resolve (digest env data))"

section \<open>crypto-helper.js: key derivation, encryption, decryption\<close>

definition PBKDF2_ITERATIONS :: int where
  "PBKDF2_ITERATIONS = 200000"

definition IV_LENGTH :: nat where
  "IV_LENGTH = 12"

definition SALT_LENGTH :: nat where
  "SALT_LENGTH = 16"

text \<open>\<open>str2ab\<close>: \<open>TextEncoder\<close> writes UTF-8; a code unit from \<open>0x80\<close> to \<open>0xFF\<close> takes two bytes.\<close>

definition utf8 :: "char \<Rightarrow> byte list" where
  "utf8 c = (let n = (of_char c :: nat) in
     if n < 128 then [of_nat n] else [of_nat (192 + n div 64), of_nat (128 + n mod 64)])"

definition str2ab :: "string \<Rightarrow> byte list" where
  "str2ab str = concat (map utf8 str)"

definition randomBytes :: "nat \<Rightarrow> (world, byte list) async" where
  "randomBytes len =
     (\<lambda>w. (Inr (map (entropy w) [0..<len]), w\<lparr>entropy := (\<lambda>i. entropy w (i + len))\<rparr>))"

text \<open>The default parameter \<open>iterations = PBKDF2_ITERATIONS\<close> applies to \<open>undefined\<close>.\<close>

definition deriveKeyFromPassword ::
    "'k subtle \<Rightarrow> jsval \<Rightarrow> byte list \<Rightarrow> jsval \<Rightarrow> (world, 'k) async" where
  "deriveKeyFromPassword env password salt' iterations' =
     (let iterations' = (if iterations' = JUndefined then JNumber PBKDF2_ITERATIONS else iterations') in
      case password of
        JString pw \<Rightarrow>
          await (subtle_importKey env (str2ab pw)) (\<lambda>passKey.
          await (subtle_deriveKey env salt' iterations' passKey) (\<lambda>key.
          resolve key))
      | _ \<Rightarrow> throw (Error ''Password must be a string''))"

definition hashBufferToBase64 :: "'k subtle \<Rightarrow> byte list \<Rightarrow> (world, string) async" where
  "hashBufferToBase64 env arrayBuffer' =
     await (subtle_digest env arrayBuffer') (\<lambda>digest'. resolve (ab2base64 digest'))"

text \<open>
  The encrypted package. \<open>ciphertext\<close>, \<open>iterations\<close> and \<open>hash\<close> are the fields
  \<open>decryptBuffer\<close> tests dynamically; \<open>iv\<close> and \<open>salt\<close> go to \<open>atob\<close> as they are, and
  are strings in every package the program builds.
\<close>

record encrypted_package =
  ciphertext :: jsval
  iv :: string
  salt :: string
  iterations :: jsval
  hash :: jsval

definition password_ok :: "jsval \<Rightarrow> bool" where
  "password_ok password \<longleftrightarrow> (case password of JString pw \<Rightarrow> length pw \<noteq> 0 | _ \<Rightarrow> False)"

definition encryptBuffer ::
    "'k subtle \<Rightarrow> jsval \<Rightarrow> jsval \<Rightarrow> (world, encrypted_package) async" where
  "encryptBuffer env arrayBuffer' password =
     (case arrayBuffer' of
        JArrayBuffer plain \<Rightarrow>
          if \<not> password_ok password then throw (Error ''password must be a non-empty string'')
          else
            await (randomBytes SALT_LENGTH) (\<lambda>salt'.
            await (randomBytes IV_LENGTH) (\<lambda>iv'.
            await (deriveKeyFromPassword env password salt' (JNumber PBKDF2_ITERATIONS)) (\<lambda>key.
            await (hashBufferToBase64 env plain) (\<lambda>plainHashBase64.
            await (subtle_encrypt env iv' key plain) (\<lambda>cipherBuffer.
            resolve \<lparr>ciphertext = JString (ab2base64 cipherBuffer),
                     iv = ab2base64 iv',
                     salt = ab2base64 salt',
                     iterations = JNumber PBKDF2_ITERATIONS,
                     hash = JString plainHashBase64\<rparr>)))))
      | _ \<Rightarrow> throw (Error ''arrayBuffer must be an ArrayBuffer''))"

record decrypt_result =
  arrayBuffer :: "byte list"
  ok :: bool
  expectedHash :: jsval
  computedHash :: string

text \<open>
  \<open>decryptBuffer\<close>. The package is \<open>None\<close> for a missing (falsy) argument. The three
  \<open>base642ab\<close> calls stand before the \<open>try\<close>, so what \<open>atob\<close> throws leaves the function
  as it is; only a rejection of \<open>subtle.decrypt\<close> is replaced by the program's error.
\<close>

definition decryptBuffer ::
    "'k subtle \<Rightarrow> encrypted_package option \<Rightarrow> jsval \<Rightarrow> (world, decrypt_result) async" where
  "decryptBuffer env encryptedPackage password =
     (case encryptedPackage of
        None \<Rightarrow> throw (Error ''Invalid encrypted package'')
      | Some pkg \<Rightarrow>
         (case ciphertext pkg of
            JString ciphertext' \<Rightarrow>
              if \<not> password_ok password then throw (Error ''password must be a non-empty string'')
              else
                await (settle (base642ab ciphertext')) (\<lambda>ciphertextBuf.
                await (settle (base642ab (iv pkg))) (\<lambda>ivBuf.
                await (settle (base642ab (salt pkg))) (\<lambda>saltBuf.
                let iterations' = js_or (iterations pkg) (JNumber PBKDF2_ITERATIONS) in
                await (deriveKeyFromPassword env password saltBuf iterations') (\<lambda>key.
                await (try_catch (subtle_decrypt env ivBuf key ciphertextBuf)
                         (\<lambda>err. throw (Error ''Decryption failed. Wrong password or corrupted data.'')))
                  (\<lambda>plainBuf.
                await (hashBufferToBase64 env plainBuf) (\<lambda>computedHash'.
                let expectedHash' = js_or (hash pkg) JNull;
                    ok' = (if truthy expectedHash' then JString computedHash' = expectedHash' else True)
                in resolve \<lparr>arrayBuffer = plainBuf, ok = ok',
                            expectedHash = expectedHash', computedHash = computedHash'\<rparr>))))))
          | _ \<Rightarrow> throw (Error ''Invalid encrypted package'')))"

text \<open>
  The stored file record: the package and the metadata \<open>createEncryptedFileRecord\<close>
  adds. \<open>createdAt\<close> is the reading of the clock, standing for its ISO string;
  \<open>mimeType\<close> is empty until script.js sets it.
\<close>

record file_record = encrypted_package +
  name :: string
  createdAt :: int
  size' :: nat
  mimeType :: string

definition createEncryptedFileRecord ::
    "'k subtle \<Rightarrow> string \<Rightarrow> jsval \<Rightarrow> jsval \<Rightarrow> (world, file_record) async" where
  "createEncryptedFileRecord env fileName arrayBuffer' password =
     await (encryptBuffer env arrayBuffer' password) (\<lambda>enc. (\<lambda>w.
       resolve \<lparr>ciphertext = ciphertext enc, iv = iv enc, salt = salt enc,
                iterations = iterations enc, hash = hash enc,
                name = fileName, createdAt = now w,
                size' = (case arrayBuffer' of JArrayBuffer b \<Rightarrow> length b | _ \<Rightarrow> 0),
                mimeType = []\<rparr> w))"

text \<open>The names the specification gives to the program's errors.\<close>

definition WrongPasswordOrCorruptData :: exn where
  "WrongPasswordOrCorruptData = Error ''Decryption failed. Wrong password or corrupted data.''"


section \<open>db.js: the record store\<close>

text \<open>
  The object store \<open>files\<close> of IndexedDB, keyed by \<open>name\<close>, is the list of its records
  in the order \<open>getAll\<close> returns them, which is the order of the keys (strings compare
  code unit by code unit). \<open>put\<close> removes the record of the same name and puts the new
  one at its place in that order. The page state \<open>app\<close> holds the store, the three variables of
  script.js (\<open>sessionPassword\<close>, \<open>unlocked\<close>, \<open>storedFiles\<close>), what \<open>showMessage\<close> has
  reported, the answers the user will give to \<open>confirm\<close>, the files handed to the
  browser for download, and the world of the crypto helper. The requests of
  IndexedDB succeed: \<open>request.onerror\<close> is not modelled.
\<close>

record app =
  sessionPassword :: jsval
  unlocked :: bool
  storedFiles :: "file_record list"
  files_store :: "file_record list"
  messages :: "(string \<times> string) list"
  confirms :: "bool list"
  downloads :: "(string \<times> byte list) list"
  world :: world

definition modify :: "('s \<Rightarrow> 's) \<Rightarrow> ('s, unit) async" where
  "modify f = (\<lambda>s. (Inr (), f s))"

definition in_world :: "(world, 'a) async \<Rightarrow> (app, 'a) async" where
  "in_world m = (\<lambda>s. case m (world s) of (r, w') \<Rightarrow> (r, s\<lparr>world := w'\<rparr>))"

fun for_each :: "'a list \<Rightarrow> ('a \<Rightarrow> ('s, unit) async) \<Rightarrow> ('s, unit) async" where
  "for_each [] body = resolve ()"
| "for_each (x # xs) body = await (body x) (\<lambda>_. for_each xs body)"

definition store_put :: "file_record \<Rightarrow> file_record list \<Rightarrow> file_record list" where
  "store_put r rs = insort_key name r (filter (\<lambda>x. name x \<noteq> name r) rs)"

definition saveFile :: "file_record \<Rightarrow> (app, bool) async" where
  "saveFile r =
     (if name r = [] then throw (Error ''Invalid file record'')
      else await (modify (\<lambda>s. s\<lparr>files_store := store_put r (files_store s)\<rparr>)) (\<lambda>_. resolve True))"

definition getFile :: "string \<Rightarrow> (app, file_record option) async" where
  "getFile n = (\<lambda>s. resolve (find (\<lambda>r. name r = n) (files_store s)) s)"

definition deleteFile :: "string \<Rightarrow> (app, bool) async" where
  "deleteFile n =
     await (modify (\<lambda>s. s\<lparr>files_store := filter (\<lambda>r. name r \<noteq> n) (files_store s)\<rparr>))
       (\<lambda>_. resolve True)"

definition getAllFiles :: "(app, file_record list) async" where
  "getAllFiles = (\<lambda>s. resolve (files_store s) s)"

section \<open>script.js: the session and its operations\<close>

text \<open>
  The functions of script.js without what they write into the document: the list
  items, icons and the \<open>disabled\<close> flags of the buttons are not part of the state.
  In \<open>downloadFile\<close> the test \<open>!result || !result.arrayBuffer\<close> never holds of what
  \<open>decryptBuffer\<close> returns, so its \<open>throw\<close> is left out. Each handler runs to its end
  before the next starts. \<open>UnlockClick\<close> stands for the unlock button and for Enter in
  the password field, \<open>FilesChosen\<close> for a drop and for the file input, \<open>ActionClick\<close>
  for the button of a list item.
\<close>

record js_file =
  file_name :: string
  file_type :: string
  file_bytes :: "byte list"

text \<open>The decimal digits of a number, as a template literal prints it.\<close>

fun decimal :: "nat \<Rightarrow> string" where
  "decimal n = (if n < 10 then [char_of (48 + n)] else decimal (n div 10) @ [char_of (48 + n mod 10)])"

declare decimal.simps [simp del]

text \<open>
  \<open>err.message\<close>: the text of an \<open>Error\<close>; for an exception of the platform its name
  stands for the text the browser gives.
\<close>

definition message :: "exn \<Rightarrow> string" where
  "message e = (case e of Error m \<Rightarrow> m | DOMException n \<Rightarrow> n)"

definition showMessage :: "string \<Rightarrow> string \<Rightarrow> (app, unit) async" where
  "showMessage msg type = modify (\<lambda>s. s\<lparr>messages := messages s @ [(msg, type)]\<rparr>)"

definition confirm :: "string \<Rightarrow> (app, bool) async" where
  "confirm msg =
     (\<lambda>s. case confirms s of [] \<Rightarrow> (Inr False, s) | b # bs \<Rightarrow> (Inr b, s\<lparr>confirms := bs\<rparr>))"

definition refreshFileList :: "(app, unit) async" where
  "refreshFileList =
     await getAllFiles (\<lambda>files.
     modify (\<lambda>s. s\<lparr>storedFiles := sort_key (\<lambda>r. - createdAt r) files\<rparr>))"

definition setUnlockedState :: "bool \<Rightarrow> (app, unit) async" where
  "setUnlockedState state =
     await (modify (\<lambda>s. s\<lparr>unlocked := state\<rparr>)) (\<lambda>_.
     modify (\<lambda>s. if \<not> unlocked s then s\<lparr>sessionPassword := JNull\<rparr> else s))"

definition package_of :: "file_record \<Rightarrow> encrypted_package" where
  "package_of r = \<lparr>ciphertext = ciphertext r, iv = iv r, salt = salt r,
                   iterations = iterations r, hash = hash r\<rparr>"

definition tryUnlock :: "'k subtle \<Rightarrow> jsval \<Rightarrow> (app, bool) async" where
  "tryUnlock env password =
     await getAllFiles (\<lambda>files.
       case files of
         [] \<Rightarrow>
           await (modify (\<lambda>s. s\<lparr>sessionPassword := password\<rparr>)) (\<lambda>_.
           await (setUnlockedState True) (\<lambda>_.
           await (showMessage ''Explorer unlocked (no files to validate).'' ''info'') (\<lambda>_.
           await refreshFileList (\<lambda>_.
           resolve True))))
       | sample # _ \<Rightarrow>
           try_catch
             (await (in_world (decryptBuffer env (Some (package_of sample)) password)) (\<lambda>_.
              await (modify (\<lambda>s. s\<lparr>sessionPassword := password\<rparr>)) (\<lambda>_.
              await (setUnlockedState True) (\<lambda>_.
              await (showMessage ''Explorer unlocked.'' ''info'') (\<lambda>_.
              await refreshFileList (\<lambda>_.
              resolve True))))))
             (\<lambda>err.
              await (setUnlockedState False) (\<lambda>_.
              await (showMessage ''Wrong password. Unlock failed.'' ''error'') (\<lambda>_.
              resolve False))))"

definition add_file :: "'k subtle \<Rightarrow> js_file \<Rightarrow> (app, unit) async" where
  "add_file env f =
     try_catch
       (await (getFile (file_name f)) (\<lambda>existing.
        await (case existing of
                 Some _ \<Rightarrow> confirm (''A file named '' @ [CHR 0x22] @ file_name f @ [CHR 0x22] @ '' already exists. Overwrite?'')
               | None \<Rightarrow> resolve True) (\<lambda>override.
        if \<not> override then resolve ()
        else (\<lambda>s.
          (await (in_world (createEncryptedFileRecord env (file_name f)
                              (JArrayBuffer (file_bytes f)) (sessionPassword s))) (\<lambda>r.
           await (saveFile (r\<lparr>mimeType := file_type f\<rparr>)) (\<lambda>_.
           showMessage (''Saved: '' @ file_name f) ''info''))) s))))
       (\<lambda>err. showMessage (''Failed to add '' @ file_name f @ '': '' @ message err) ''error'')"

definition handleFilesAdded :: "'k subtle \<Rightarrow> js_file list \<Rightarrow> (app, unit) async" where
  "handleFilesAdded env fileList =
     (\<lambda>s. if \<not> unlocked s \<or> \<not> truthy (sessionPassword s)
          then showMessage ''Unlock explorer first before adding files.'' ''error'' s
          else (await (for_each fileList (add_file env)) (\<lambda>_. refreshFileList)) s)"

definition save_blob :: "string \<Rightarrow> byte list \<Rightarrow> (app, unit) async" where
  "save_blob n bytes = modify (\<lambda>s. s\<lparr>downloads := downloads s @ [(n, bytes)]\<rparr>)"

definition downloadFile :: "'k subtle \<Rightarrow> string \<Rightarrow> (app, unit) async" where
  "downloadFile env n =
     await (getFile n) (\<lambda>found.
       case found of
         None \<Rightarrow> throw (Error ''File not found in DB'')
       | Some r \<Rightarrow> (\<lambda>s.
           (await (in_world (decryptBuffer env (Some (package_of r)) (sessionPassword s))) (\<lambda>result.
            await (if \<not> ok result
                   then confirm ''Integrity check failed (file may be tampered). Download anyway?''
                   else resolve True) (\<lambda>proceed.
            if \<not> proceed then resolve ()
            else await (save_blob (name r) (arrayBuffer result)) (\<lambda>_.
                 showMessage (''Downloaded: '' @ name r) ''info'')))) s))"

definition actionBtn_click :: "'k subtle \<Rightarrow> string \<Rightarrow> (app, unit) async" where
  "actionBtn_click env n =
     (\<lambda>s. if \<not> unlocked s
          then showMessage ''Unlock explorer first to download files.'' ''error'' s
          else try_catch (downloadFile env n)
                 (\<lambda>err. showMessage (''Download failed: '' @ message err) ''error'') s)"

definition downloadSelected :: "'k subtle \<Rightarrow> string list \<Rightarrow> (app, unit) async" where
  "downloadSelected env checked =
     (if length checked = 0 then showMessage ''No files selected to download.'' ''error''
      else for_each checked (\<lambda>n.
             try_catch (downloadFile env n)
               (\<lambda>err. showMessage (''Failed to download '' @ n @ '': '' @ message err) ''error'')))"

definition downloadBtn_click :: "'k subtle \<Rightarrow> string list \<Rightarrow> (app, unit) async" where
  "downloadBtn_click env checked =
     (\<lambda>s. if \<not> unlocked s then showMessage ''Unlock explorer first.'' ''error'' s
          else downloadSelected env checked s)"

definition deleteSelected :: "string list \<Rightarrow> (app, unit) async" where
  "deleteSelected checked =
     (if length checked = 0 then showMessage ''No files selected to delete.'' ''error''
      else await (confirm (''Delete '' @ decimal (length checked) @ '' file(s)? This cannot be undone.'')) (\<lambda>ok'.
           if \<not> ok' then resolve ()
           else await (for_each checked (\<lambda>n.
                  try_catch (await (deleteFile n) (\<lambda>_. showMessage (''Deleted: '' @ n) ''info''))
                    (\<lambda>err. showMessage (''Failed to delete '' @ n @ '': '' @ message err) ''error'')))
                (\<lambda>_. refreshFileList)))"

definition deleteBtn_click :: "string list \<Rightarrow> (app, unit) async" where
  "deleteBtn_click checked =
     (\<lambda>s. if \<not> unlocked s then showMessage ''Unlock explorer first.'' ''error'' s
          else deleteSelected checked s)"

definition files_chosen :: "'k subtle \<Rightarrow> js_file list \<Rightarrow> (app, unit) async" where
  "files_chosen env files =
     (if length files \<noteq> 0 then handleFilesAdded env files else resolve ())"

definition unlockBtn_click :: "'k subtle \<Rightarrow> string \<Rightarrow> (app, unit) async" where
  "unlockBtn_click env pwd =
     (if pwd = [] then showMessage ''Enter a password to unlock.'' ''error''
      else await (tryUnlock env (JString pwd)) (\<lambda>_. resolve ()))"

definition resetYes_click :: "(app, unit) async" where
  "resetYes_click =
     await getAllFiles (\<lambda>allFiles.
     await (for_each allFiles (\<lambda>f. await (deleteFile (name f)) (\<lambda>_. resolve ()))) (\<lambda>_.
     await (modify (\<lambda>s. s\<lparr>sessionPassword := JNull\<rparr>)) (\<lambda>_.
     await (setUnlockedState False) (\<lambda>_.
     showMessage ''Environment has been reset. All files erased.'' ''info''))))"

text \<open>
  Loading the page initialises the three variables and runs \<open>init\<close>; the lock button
  reloads the page, which keeps nothing but the store and the world outside the page.
\<close>

definition init :: "(app, unit) async" where
  "init = await (setUnlockedState False) (\<lambda>_. refreshFileList)"

definition page_load :: "file_record list \<Rightarrow> bool list \<Rightarrow> (string \<times> byte list) list \<Rightarrow> world \<Rightarrow> app" where
  "page_load store answers saved w =
     snd (init \<lparr>sessionPassword = JNull, unlocked = False, storedFiles = [],
                files_store = store, messages = [], confirms = answers,
                downloads = saved, world = w\<rparr>)"

definition lockButton_click :: "(app, unit) async" where
  "lockButton_click =
     (\<lambda>s. (Inr (), page_load (files_store s) (confirms s) (downloads s) (world s)))"

datatype event =
  UnlockClick string
| FilesChosen "js_file list"
| ActionClick string
| DownloadClick "string list"
| DeleteClick "string list"
| ResetYes
| LockClick

fun handle :: "'k subtle \<Rightarrow> event \<Rightarrow> (app, unit) async" where
  "handle env (UnlockClick pwd) = unlockBtn_click env pwd"
| "handle env (FilesChosen files) = files_chosen env files"
| "handle env (ActionClick n) = actionBtn_click env n"
| "handle env (DownloadClick checked) = downloadBtn_click env checked"
| "handle env (DeleteClick checked) = deleteBtn_click checked"
| "handle env ResetYes = resetYes_click"
| "handle env LockClick = lockButton_click"

text \<open>
  The states a page can be in: the state after loading, with any store, and every
  state a handler leaves behind, whether it returned or threw. The handlers of the
  program are \<open>async\<close> and may interleave at an \<open>await\<close>; here each runs to its end
  before the next starts. The tests of \<open>unlocked\<close> at the head of a handler and the
  writes to \<open>unlocked\<close> and \<open>sessionPassword\<close> each stand in one synchronous block of
  the program, so what is proved of them does not depend on this; work of a handler
  that is still in flight when another locks the session is outside the model.
\<close>

inductive reachable :: "'k subtle \<Rightarrow> app \<Rightarrow> bool" for env :: "'k subtle" where
  loaded: "reachable env (page_load store answers saved w)"
| handled: "reachable env s \<Longrightarrow> reachable env (snd (handle env ev s))"

section \<open>Contracts and instances of the platform\<close>

text \<open>
  What the theorems below ask of AES-GCM: \<open>decrypt\<close> under the key and the iv of an
  \<open>encrypt\<close> gives back what was encrypted.
\<close>

definition aes_gcm_inverse :: "'k subtle \<Rightarrow> bool" where
  "aes_gcm_inverse env \<longleftrightarrow>
     (\<forall>iv' key plain cipher. encrypt env iv' key plain = Inr cipher \<longrightarrow>
        decrypt env iv' key cipher = Inr plain)"

text \<open>The salt and the iv the next \<open>encryptBuffer\<close> draws from the entropy of a world.\<close>

definition fresh_salt :: "world \<Rightarrow> byte list" where
  "fresh_salt w = map (entropy w) [0..<SALT_LENGTH]"

definition fresh_iv :: "world \<Rightarrow> byte list" where
  "fresh_iv w = map (\<lambda>i. entropy w (i + SALT_LENGTH)) [0..<IV_LENGTH]"

text \<open>
  A small platform on which the functions can be run: keys are byte lists, the derived
  key is the password followed by the salt, the ciphertext is the plaintext followed
  by a 16-byte tag made of key and iv, and \<open>decrypt\<close> rejects a wrong tag.
\<close>

definition toy_tag :: "byte list \<Rightarrow> byte list \<Rightarrow> byte list" where
  "toy_tag key iv' = take 16 (key @ iv' @ replicate 16 0)"

definition toy_subtle :: "byte list subtle" where
  "toy_subtle = \<lparr>
     importKey = (\<lambda>keyData. Inr keyData),
     deriveKey = (\<lambda>salt' iterations' passKey.
        case iterations' of
          JNumber n \<Rightarrow> if 0 < n then Inr (passKey @ salt') else Inl (DOMException ''OperationError'')
        | _ \<Rightarrow> Inl (DOMException ''TypeError'')),
     encrypt = (\<lambda>iv' key data. Inr (data @ toy_tag key iv')),
     decrypt = (\<lambda>iv' key data.
        if 16 \<le> length data \<and> drop (length data - 16) data = toy_tag key iv'
        then Inr (take (length data - 16) data)
        else Inl (DOMException ''OperationError'')),
     digest = (\<lambda>data. take 32 (data @ replicate 32 0))\<rparr>"

definition world0 :: world where
  "world0 = \<lparr>entropy = (\<lambda>i. of_nat i), calls = [], now = 0\<rparr>"

text \<open>
  \<open>deriveKey\<close> with \<open>{name: 'PBKDF2', hash: 'SHA-256'}\<close> is PBKDF2 (RFC 8018) with
  HMAC (RFC 2104) as its pseudo-random function, the password being the HMAC key.
  HMAC replaces a key longer than the 64-byte block by its hash and then fills the
  key with zero bytes up to the block. The hash \<open>H\<close> stays a parameter.
\<close>

definition hmac_key :: "(byte list \<Rightarrow> byte list) \<Rightarrow> byte list \<Rightarrow> byte list" where
  "hmac_key H key = (let k = (if 64 < length key then H key else key) in k @ replicate (64 - length k) 0)"

definition hmac :: "(byte list \<Rightarrow> byte list) \<Rightarrow> byte list \<Rightarrow> byte list \<Rightarrow> byte list" where
  "hmac H key msg =
     H (map (\<lambda>b. b XOR 0x5C) (hmac_key H key) @ H (map (\<lambda>b. b XOR 0x36) (hmac_key H key) @ msg))"

fun pbkdf2_rounds ::
    "(byte list \<Rightarrow> byte list) \<Rightarrow> byte list \<Rightarrow> byte list \<Rightarrow> byte list \<Rightarrow> nat \<Rightarrow> byte list" where
  "pbkdf2_rounds H pw u acc 0 = acc"
| "pbkdf2_rounds H pw u acc (Suc n) =
     (let u' = hmac H pw u in pbkdf2_rounds H pw u' (map (\<lambda>(a, b). a XOR b) (zip acc u')) n)"

definition pbkdf2 :: "(byte list \<Rightarrow> byte list) \<Rightarrow> byte list \<Rightarrow> byte list \<Rightarrow> nat \<Rightarrow> byte list" where
  "pbkdf2 H pw salt' c =
     (let u1 = hmac H pw (salt' @ [0, 0, 0, 1]) in take 32 (pbkdf2_rounds H pw u1 u1 (c - 1)))"

definition with_pbkdf2 :: "byte list subtle \<Rightarrow> byte list subtle" where
  "with_pbkdf2 env = env\<lparr>
     importKey := (\<lambda>keyData. Inr keyData),
     deriveKey := (\<lambda>salt' iterations' passKey.
        case iterations' of
          JNumber n \<Rightarrow>
            if 0 < n \<and> n < 2 ^ 32 then Inr (pbkdf2 (digest env) passKey salt' (nat n))
            else Inl (DOMException ''OperationError'')
        | _ \<Rightarrow> Inl (DOMException ''TypeError''))\<rparr>"

text \<open>
  Proof devices for the base64 round trip: the six-bit groups \<open>btoa\<close> writes, before
  they are mapped to characters, and the padding it appends.
\<close>

fun b64_sextets :: "nat list \<Rightarrow> nat list" where
  "b64_sextets (a # b # c # rest) =
     [a div 4, (a mod 4) * 16 + b div 16, (b mod 16) * 4 + c div 64, c mod 64] @ b64_sextets rest"
| "b64_sextets [a, b] = [a div 4, (a mod 4) * 16 + b div 16, (b mod 16) * 4]"
| "b64_sextets [a] = [a div 4, (a mod 4) * 16]"
| "b64_sextets [] = []"

fun b64_padding :: "nat list \<Rightarrow> string" where
  "b64_padding (a # b # c # rest) = b64_padding rest"
| "b64_padding [a, b] = ''=''"
| "b64_padding [a] = ''==''"
| "b64_padding [] = []"

section \<open>Devices for the session proofs\<close>

text \<open>
  A stored record and a freshly loaded page to run the session operations on: the
  record is the one \<open>toy_subtle\<close> writes for the two bytes \<open>hi\<close> under the password
  \<open>pw\<close>. \<open>corrupt_record\<close> is the same record with a ciphertext that is not base64.
\<close>

definition record0 :: file_record where
  "record0 = \<lparr>ciphertext = JString ''aGlwdwABAgMEBQYHCAkKCwwN'',
               iv = ''EBESExQVFhcYGRob'', salt = ''AAECAwQFBgcICQoLDA0ODw=='',
               iterations = JNumber 200000,
               hash = JString ''aGkAAAAAAAAAAAAAAAAAAAAAAAAAAAAAAAAAAAAAAAA='',
               name = ''hi.txt'', createdAt = 0, size' = 2, mimeType = ''text/plain''\<rparr>"

definition corrupt_record :: file_record where
  "corrupt_record = record0\<lparr>ciphertext := JString ''!''\<rparr>"

definition page0 :: "file_record list \<Rightarrow> app" where
  "page0 store = page_load store [] [] world0"

text \<open>
  The session is the pair of \<open>unlocked\<close> and \<open>sessionPassword\<close>; \<open>keeps_session m\<close>
  says that running \<open>m\<close> leaves it as it was.
\<close>

definition session :: "app \<Rightarrow> bool \<times> jsval" where
  "session s = (unlocked s, sessionPassword s)"

definition keeps_session :: "(app, 'a) async \<Rightarrow> bool" where
  "keeps_session m \<longleftrightarrow> (\<forall>s. session (snd (m s)) = session s)"

text \<open>The invariant of the session: a locked session holds no password.\<close>

definition locked_without_password :: "app \<Rightarrow> bool" where
  "locked_without_password s \<longleftrightarrow> (\<not> unlocked s \<longrightarrow> sessionPassword s = JNull)"

section \<open>The base64 transcoding is an exact round trip\<close>

lemma ab2base64_loop_eq:
  "ab2base64_loop bytes i binary = binary @ fromCharCode_apply (drop i bytes)"
proof (induction bytes i binary rule: ab2base64_loop.induct)
  case (1 bytes i binary)
  show ?case
  proof (cases "i < length bytes")
    case True
    have "drop i bytes = take chunkSize (drop i bytes) @ drop (i + chunkSize) bytes"
      using append_take_drop_id [of chunkSize "drop i bytes"] by (simp add: add.commute)
    then have "fromCharCode_apply (drop i bytes) =
        fromCharCode_apply (subarray bytes i (i + chunkSize)) @ fromCharCode_apply (drop (i + chunkSize) bytes)"
      unfolding fromCharCode_apply_def subarray_def
      by (metis add_diff_cancel_left' map_append)
    with True "1.IH" show ?thesis
      by (subst ab2base64_loop.simps) simp
  next
    case False
    then show ?thesis
      by (subst ab2base64_loop.simps) (simp add: fromCharCode_apply_def)
  qed
qed

lemma fold_store:
  "n \<le> length xs \<Longrightarrow> fold (\<lambda>i bytes. bytes[i := f i]) [0..<n] xs = map f [0..<n] @ drop n xs"
proof (induction n)
  case 0
  then show ?case by simp
next
  case (Suc n)
  then have "fold (\<lambda>i bytes. bytes[i := f i]) [0..<Suc n] xs = (map f [0..<n] @ drop n xs)[n := f n]"
    by simp
  also have "\<dots> = map f [0..<n] @ (drop n xs)[0 := f n]"
    by (simp add: list_update_append)
  also have "(drop n xs)[0 := f n] = f n # drop (Suc n) xs"
    using Suc.prems by (metis Cons_nth_drop_Suc Suc_le_lessD list_update_code(2))
  finally show ?case by simp
qed

lemma base642ab_loop_eq:
  "base642ab_loop binary (length binary) = map (\<lambda>c. of_nat (of_char c)) binary"
proof -
  have "base642ab_loop binary (length binary) = map (\<lambda>i. of_nat (charCodeAt binary i)) [0..<length binary]"
    unfolding base642ab_loop_def by (subst fold_store) simp_all
  also have "\<dots> = map (\<lambda>c. of_nat (of_char c)) binary"
    by (rule nth_equalityI) (simp_all add: charCodeAt_def)
  finally show ?thesis .
qed

lemma distinct_b64_alphabet: "distinct b64_alphabet"
  unfolding b64_alphabet_def by simp

lemma length_b64_alphabet: "length b64_alphabet = 64"
  unfolding b64_alphabet_def by simp

lemma index_of_nth: "distinct xs \<Longrightarrow> n < length xs \<Longrightarrow> index_of (xs ! n) xs = Some n"
proof (induction xs arbitrary: n)
  case Nil
  then show ?case by simp
next
  case (Cons x xs)
  then show ?case by (cases n) auto
qed

lemma index_of_Some: "index_of x xs = Some n \<Longrightarrow> n < length xs \<and> xs ! n = x"
  by (induction xs arbitrary: n) (auto split: if_splits)

lemma b64_index_char: "n < 64 \<Longrightarrow> b64_index (b64_char n) = Some n"
  unfolding b64_index_def b64_char_def
  by (rule index_of_nth) (simp_all add: distinct_b64_alphabet length_b64_alphabet)


lemma b64_encode_split: "b64_encode ns = map b64_char (b64_sextets ns) @ b64_padding ns"
  by (induction ns rule: b64_encode.induct) simp_all

lemma b64_padding_cases: "b64_padding ns = [] \<or> b64_padding ns = ''='' \<or> b64_padding ns = ''==''"
  by (induction ns rule: b64_padding.induct) simp_all

lemma length_b64_encode: "length (b64_encode ns) mod 4 = 0"
  by (induction ns rule: b64_encode.induct) simp_all

lemma length_b64_sextets: "length (b64_sextets ns) mod 4 \<noteq> 1"
  by (induction ns rule: b64_sextets.induct) simp_all

lemma b64_sextets_bound:
  "\<forall>n \<in> set ns. n < 256 \<Longrightarrow> \<forall>s \<in> set (b64_sextets ns). s < 64"
proof (induction ns rule: b64_sextets.induct)
  case (1 a b c rest)
  have "a div 4 < 64" "(a mod 4) * 16 + b div 16 < 64" "(b mod 16) * 4 + c div 64 < 64" "c mod 64 < 64"
    using "1.prems" by auto
  with 1 show ?case by simp
next
  case (2 a b)
  have "a div 4 < 64" "(a mod 4) * 16 + b div 16 < 64" "(b mod 16) * 4 < 64"
    using "2.prems" by auto
  then show ?case by simp
next
  case (3 a)
  have "a div 4 < 64" "(a mod 4) * 16 < 64"
    using "3.prems" by auto
  then show ?case by simp
next
  case 4
  then show ?case by simp
qed

lemma b64_decode_sextets:
  "\<forall>n \<in> set ns. n < 256 \<Longrightarrow> b64_decode (b64_sextets ns) = ns"
proof (induction ns rule: b64_sextets.induct)
  case (1 a b c rest)
  then have "b < 16 * 16" "c < 4 * 64" by simp_all
  then have "b div 16 < 16" "c div 64 < 4"
    by (simp_all only: less_mult_imp_div_less)
  with 1 show ?case by simp
next
  case (2 a b)
  then have "b < 16 * 16" by simp
  then have "b div 16 < 16"
    by (simp only: less_mult_imp_div_less)
  then show ?case by simp
next
  case (3 a)
  then show ?case by simp
next
  case 4
  then show ?case by simp
qed

lemma b64_char_in_alphabet: "s < 64 \<Longrightarrow> b64_char s \<in> set b64_alphabet"
  unfolding b64_char_def by (simp add: length_b64_alphabet)

lemma b64_alphabet_not_pad: "c \<in> set b64_alphabet \<Longrightarrow> c \<noteq> CHR ''=''"
  unfolding b64_alphabet_def by auto

lemma b64_alphabet_not_ws: "c \<in> set b64_alphabet \<Longrightarrow> \<not> ascii_whitespace c"
  unfolding b64_alphabet_def ascii_whitespace_def by auto

lemma strip_padding_none:
  assumes "\<forall>c \<in> set cs. c \<noteq> CHR ''=''"
  shows "strip_padding cs = cs"
proof -
  have a: "drop n cs \<noteq> CHR ''='' # r" for n r
  proof
    assume "drop n cs = CHR ''='' # r"
    then have "CHR ''='' \<in> set (drop n cs)" by simp
    then have "CHR ''='' \<in> set cs" by (rule in_set_dropD)
    with assms show False by blast
  qed
  show ?thesis by (simp add: strip_padding_def a)
qed

lemma strip_padding_one:
  assumes "\<forall>c \<in> set cs. c \<noteq> CHR ''=''" and "length (cs @ ''='') mod 4 = 0"
  shows "strip_padding (cs @ ''='') = cs"
proof -
  have a: "drop (length (cs @ ''='') - 2) (cs @ ''='') \<noteq> ''==''"
  proof (cases cs rule: rev_cases)
    case Nil
    then show ?thesis by simp
  next
    case (snoc ys y)
    with assms(1) have "y \<noteq> CHR ''=''" by simp
    with snoc show ?thesis by simp
  qed
  have b: "drop (length (cs @ ''='') - 1) (cs @ ''='') = ''=''" by simp
  have c: "take (length (cs @ ''='') - 1) (cs @ ''='') = cs" by simp
  show ?thesis unfolding strip_padding_def using a b c assms(2) by simp
qed

lemma strip_padding_two:
  assumes "length (cs @ ''=='') mod 4 = 0"
  shows "strip_padding (cs @ ''=='') = cs"
proof -
  have a: "drop (length (cs @ ''=='') - 2) (cs @ ''=='') = ''==''" by simp
  have c: "take (length (cs @ ''=='') - 2) (cs @ ''=='') = cs" by simp
  show ?thesis unfolding strip_padding_def using a c assms by simp
qed

lemma those_map_Some: "those (map Some xs) = Some xs"
  by (induction xs) simp_all

lemma those_b64_index:
  "\<forall>s \<in> set ss. s < 64 \<Longrightarrow> those (map b64_index (map b64_char ss)) = Some ss"
  by (induction ss) (simp_all add: b64_index_char)

lemma atob_b64_encode:
  assumes "\<forall>n \<in> set ns. n < 256"
  shows "atob (b64_encode ns) = Inr (map char_of ns)"
proof -
  let ?cs = "map b64_char (b64_sextets ns)"
  have bound: "\<forall>s \<in> set (b64_sextets ns). s < 64"
    using assms by (rule b64_sextets_bound)
  then have alpha: "\<forall>c \<in> set ?cs. c \<in> set b64_alphabet"
    by (auto simp: b64_char_in_alphabet)
  then have nopad: "\<forall>c \<in> set ?cs. c \<noteq> CHR ''=''"
    by (auto dest: b64_alphabet_not_pad)
  have ws1: "\<forall>c \<in> set ?cs. \<not> ascii_whitespace c"
    using alpha b64_alphabet_not_ws by blast
  have ws2: "\<forall>c \<in> set (b64_padding ns). \<not> ascii_whitespace c"
    using b64_padding_cases [of ns] by (auto simp: ascii_whitespace_def)
  have nows: "\<forall>c \<in> set (b64_encode ns). \<not> ascii_whitespace c"
    unfolding b64_encode_split using ws1 ws2 by (simp add: ball_Un)
  then have filt: "filter (\<lambda>c. \<not> ascii_whitespace c) (b64_encode ns) = b64_encode ns"
    by simp
  have len: "length (?cs @ b64_padding ns) mod 4 = 0"
    using length_b64_encode [of ns] by (simp add: b64_encode_split)
  consider "b64_padding ns = []" | "b64_padding ns = ''=''" | "b64_padding ns = ''==''"
    using b64_padding_cases [of ns] by blast
  then have strip: "strip_padding (b64_encode ns) = ?cs"
  proof cases
    case 1
    then show ?thesis
      using strip_padding_none [OF nopad] by (simp add: b64_encode_split)
  next
    case 2
    then show ?thesis
      using strip_padding_one [OF nopad] len by (simp only: b64_encode_split)
  next
    case 3
    then show ?thesis
      using strip_padding_two [of ?cs] len by (simp only: b64_encode_split)
  qed
  have len1: "length ?cs mod 4 \<noteq> 1"
    using length_b64_sextets [of ns] by simp
  have th: "those (map b64_index ?cs) = Some (b64_sextets ns)"
    using bound by (rule those_b64_index)
  show ?thesis
    unfolding atob_def filt strip Let_def th
    using len1 by (simp add: b64_decode_sextets [OF assms])
qed

lemma of_char_char_of_unat: "of_char (char_of (unat (b::byte))) = unat b"
proof -
  have "unat b < 256" using unsigned_less [of b, where ?'a = nat] by simp
  then show ?thesis by simp
qed

lemma byte_of_char_of: "(of_nat (of_char (char_of (unat (b::byte)))) :: byte) = b"
  by (simp only: of_char_char_of_unat) simp

lemma ab2base64_eq: "ab2base64 x = b64_encode (map unat x)"
proof -
  have bin: "ab2base64_loop x 0 [] = map (\<lambda>b. char_of (unat b)) x"
    by (simp add: ab2base64_loop_eq fromCharCode_apply_def)
  have codes: "map of_char (map (\<lambda>b. char_of (unat b)) x) = map unat x"
    by (simp only: map_map comp_def of_char_char_of_unat)
  show ?thesis
    by (simp only: ab2base64_def btoa_def bin codes)
qed

declare ab2base64_eq [code]

lemma unat_bytes_small: "\<forall>n \<in> set (map unat (x :: byte list)). n < 256"
proof
  fix n assume "n \<in> set (map unat x)"
  then obtain b :: byte where "n = unat b" by auto
  then show "n < 256" using unsigned_less [of b, where ?'a = nat] by simp
qed

lemma bytes_of_codes: "map (\<lambda>c. (of_nat (of_char c) :: byte)) (map char_of (map unat x)) = x"
  by (simp only: map_map comp_def byte_of_char_of map_ident)

lemma base642ab_ab2base64: "base642ab (ab2base64 x) = Inr x"
  by (simp only: base642ab_def ab2base64_eq atob_b64_encode [OF unat_bytes_small]
        base642ab_loop_eq bytes_of_codes sum.case length_map)

text \<open>
  Claim C8. For every byte sequence \<open>x\<close>, the empty one included, decoding the base64
  encoding of \<open>x\<close> succeeds and gives back \<open>x\<close>:
  \<open>base642ab (ab2base64 x) = x\<close>.
\<close>

theorem base64_round_trip: "base642ab (ab2base64 x) = Inr x"
proof -
  let ?codes = "map unat x"
  let ?binary = "map char_of ?codes"
  have encoded: "ab2base64 x = b64_encode ?codes"
    by (rule ab2base64_eq)
  have decoded: "atob (b64_encode ?codes) = Inr ?binary"
    using unat_bytes_small by (rule atob_b64_encode)
  have stored: "base642ab_loop ?binary (length ?binary) = map (\<lambda>c. of_nat (of_char c)) ?binary"
    by (rule base642ab_loop_eq)
  have "base642ab (ab2base64 x) = Inr (base642ab_loop ?binary (length ?binary))"
    by (simp only: base642ab_def encoded decoded sum.case)
  also have "\<dots> = Inr (map (\<lambda>c. of_nat (of_char c)) ?binary)"
    by (simp only: stored)
  also have "\<dots> = Inr x"
    by (simp only: bytes_of_codes)
  finally show ?thesis .
qed

section \<open>Running the crypto helper\<close>

lemmas async_defs = await_def resolve_def throw_def settle_def try_catch_def log_call_def

lemma js_or_not_undefined: "js_or v (JNumber PBKDF2_ITERATIONS) \<noteq> JUndefined"
  by (cases v) (simp_all add: js_or_def)

lemma deriveKeyFromPassword_run:
  "deriveKeyFromPassword env (JString pw) salt' its w =
     (let its' = (if its = JUndefined then JNumber PBKDF2_ITERATIONS else its) in
      case importKey env (str2ab pw) of
        Inl e \<Rightarrow> (Inl e, w\<lparr>calls := calls w @ [ImportKey (str2ab pw)]\<rparr>)
      | Inr pk \<Rightarrow>
          (deriveKey env salt' its' pk,
           w\<lparr>calls := calls w @ [ImportKey (str2ab pw), DeriveKey salt' its']\<rparr>))"
  by (simp add: deriveKeyFromPassword_def subtle_importKey_def subtle_deriveKey_def async_defs Let_def
           split: sum.splits)

lemma hashBufferToBase64_run:
  "hashBufferToBase64 env b w = (Inr (ab2base64 (digest env b)), w\<lparr>calls := calls w @ [Digest b]\<rparr>)"
  by (simp add: hashBufferToBase64_def subtle_digest_def async_defs)

lemma decryptBuffer_run:
  assumes "pw \<noteq> []"
    and "ciphertext pkg = JString c"
    and "base642ab c = Inr cb"
    and "base642ab (iv pkg) = Inr ivb"
    and "base642ab (salt pkg) = Inr sb"
    and "importKey env (str2ab pw) = Inr pk"
    and "deriveKey env sb (js_or (iterations pkg) (JNumber PBKDF2_ITERATIONS)) pk = Inr k"
  shows "decryptBuffer env (Some pkg) (JString pw) w =
     (let trace = [ImportKey (str2ab pw),
                   DeriveKey sb (js_or (iterations pkg) (JNumber PBKDF2_ITERATIONS)),
                   Decrypt ivb cb] in
      case decrypt env ivb k cb of
        Inl e \<Rightarrow> (Inl WrongPasswordOrCorruptData, w\<lparr>calls := calls w @ trace\<rparr>)
      | Inr plain \<Rightarrow>
          (Inr \<lparr>arrayBuffer = plain,
                ok = (if truthy (hash pkg) then JString (ab2base64 (digest env plain)) = hash pkg else True),
                expectedHash = js_or (hash pkg) JNull,
                computedHash = ab2base64 (digest env plain)\<rparr>,
           w\<lparr>calls := calls w @ trace @ [Digest plain]\<rparr>))"
  using assms js_or_not_undefined [of "iterations pkg"]
  by (simp add: decryptBuffer_def password_ok_def deriveKeyFromPassword_run hashBufferToBase64_run
        subtle_decrypt_def async_defs Let_def WrongPasswordOrCorruptData_def js_or_def
      split: sum.splits)

lemma encryptBuffer_run:
  assumes "pw \<noteq> []"
    and "importKey env (str2ab pw) = Inr pk"
    and "deriveKey env (fresh_salt w) (JNumber PBKDF2_ITERATIONS) pk = Inr k"
    and "encrypt env (fresh_iv w) k plain = Inr c"
  shows "fst (encryptBuffer env (JArrayBuffer plain) (JString pw) w) =
     Inr \<lparr>ciphertext = JString (ab2base64 c), iv = ab2base64 (fresh_iv w),
          salt = ab2base64 (fresh_salt w), iterations = JNumber PBKDF2_ITERATIONS,
          hash = JString (ab2base64 (digest env plain))\<rparr>"
  using assms
  by (simp add: encryptBuffer_def password_ok_def randomBytes_def deriveKeyFromPassword_run
        hashBufferToBase64_run subtle_encrypt_def async_defs Let_def fresh_salt_def fresh_iv_def
        PBKDF2_ITERATIONS_def)

lemma truthy_iterations: "js_or (JNumber PBKDF2_ITERATIONS) (JNumber PBKDF2_ITERATIONS) = JNumber PBKDF2_ITERATIONS"
  by (simp add: js_or_def)

lemma round_trip_run:
  assumes "aes_gcm_inverse env"
    and "pw \<noteq> []"
    and "importKey env (str2ab pw) = Inr pk"
    and "deriveKey env (fresh_salt w) (JNumber PBKDF2_ITERATIONS) pk = Inr k"
    and "encrypt env (fresh_iv w) k plain = Inr c"
    and "pkg = \<lparr>ciphertext = JString (ab2base64 c), iv = ab2base64 (fresh_iv w),
          salt = ab2base64 (fresh_salt w), iterations = JNumber PBKDF2_ITERATIONS,
          hash = JString (ab2base64 (digest env plain))\<rparr>"
  shows "\<exists>r. fst (decryptBuffer env (Some pkg) (JString pw) w') = Inr r \<and> arrayBuffer r = plain \<and> ok r"
proof -
  have dec: "decrypt env (fresh_iv w) k c = Inr plain"
    using assms(1,5) unfolding aes_gcm_inverse_def by blast
  have "decryptBuffer env (Some pkg) (JString pw) w' =
     (let trace = [ImportKey (str2ab pw),
                   DeriveKey (fresh_salt w) (js_or (iterations pkg) (JNumber PBKDF2_ITERATIONS)),
                   Decrypt (fresh_iv w) c] in
      case decrypt env (fresh_iv w) k c of
        Inl e \<Rightarrow> (Inl WrongPasswordOrCorruptData, w'\<lparr>calls := calls w' @ trace\<rparr>)
      | Inr plain \<Rightarrow>
          (Inr \<lparr>arrayBuffer = plain,
                ok = (if truthy (hash pkg) then JString (ab2base64 (digest env plain)) = hash pkg else True),
                expectedHash = js_or (hash pkg) JNull,
                computedHash = ab2base64 (digest env plain)\<rparr>,
           w'\<lparr>calls := calls w' @ trace @ [Digest plain]\<rparr>))"
    by (rule decryptBuffer_run [where pk = pk and c = "ab2base64 c"])
       (simp_all add: assms base642ab_ab2base64 truthy_iterations)
  then show ?thesis
    by (simp add: dec Let_def assms(6))
qed

text \<open>
  Claim C1. For every plaintext and every non-empty password, on a platform whose
  \<open>decrypt\<close> inverts \<open>encrypt\<close> and whose key import, key derivation and encryption
  succeed, \<open>encryptBuffer\<close> returns a package, and \<open>decryptBuffer\<close> on that package
  with the same password returns the plaintext with \<open>ok = true\<close>.
\<close>

theorem encrypt_decrypt_round_trip:
  assumes "aes_gcm_inverse env"
    and "pw \<noteq> []"
    and "importKey env (str2ab pw) = Inr pk"
    and "deriveKey env (fresh_salt w) (JNumber PBKDF2_ITERATIONS) pk = Inr k"
    and "encrypt env (fresh_iv w) k plain = Inr c"
  shows "\<exists>pkg r. fst (encryptBuffer env (JArrayBuffer plain) (JString pw) w) = Inr pkg
           \<and> fst (decryptBuffer env (Some pkg) (JString pw) w') = Inr r
           \<and> arrayBuffer r = plain \<and> ok r = True"
  using encryptBuffer_run [OF assms(2-5)] round_trip_run [OF assms refl, of w']
  by auto

lemma toy_inverse: "aes_gcm_inverse toy_subtle"
  by (auto simp: aes_gcm_inverse_def toy_subtle_def toy_tag_def)

theorem encrypt_decrypt_round_trip_witness:
  "aes_gcm_inverse toy_subtle \<and> ''pw'' \<noteq> []
   \<and> (\<exists>pkg r. fst (encryptBuffer toy_subtle (JArrayBuffer [104, 105]) (JString ''pw'') world0) = Inr pkg
           \<and> fst (decryptBuffer toy_subtle (Some pkg) (JString ''pw'') world0) = Inr r
           \<and> arrayBuffer r = [104, 105] \<and> ok r = True)"
proof -
  have h2: "''pw'' \<noteq> []" by simp
  have h3: "importKey toy_subtle (str2ab ''pw'') = Inr (str2ab ''pw'')"
    by (simp add: toy_subtle_def)
  have h4: "deriveKey toy_subtle (fresh_salt world0) (JNumber PBKDF2_ITERATIONS) (str2ab ''pw'')
              = Inr (str2ab ''pw'' @ fresh_salt world0)"
    by (simp add: toy_subtle_def PBKDF2_ITERATIONS_def)
  have h5: "encrypt toy_subtle (fresh_iv world0) (str2ab ''pw'' @ fresh_salt world0) [104, 105]
              = Inr ([104, 105] @ toy_tag (str2ab ''pw'' @ fresh_salt world0) (fresh_iv world0))"
    by (simp add: toy_subtle_def)
  show ?thesis
    using encrypt_decrypt_round_trip [OF toy_inverse h2 h3 h4 h5, of world0] toy_inverse by simp
qed

text \<open>
  Claim C7. When the authenticated decryption succeeds, \<open>decryptBuffer\<close> hashes the
  recovered plaintext again and returns \<open>ok\<close> equal to the comparison of that hash
  with the stored one; without a stored hash \<open>ok\<close> is true; and a false \<open>ok\<close> comes
  back in the returned value, not as an exception.
\<close>

theorem integrity_flag_is_returned:
  assumes "pw \<noteq> []"
    and "ciphertext pkg = JString c"
    and "base642ab c = Inr cb"
    and "base642ab (iv pkg) = Inr ivb"
    and "base642ab (salt pkg) = Inr sb"
    and "importKey env (str2ab pw) = Inr pk"
    and "deriveKey env sb (js_or (iterations pkg) (JNumber PBKDF2_ITERATIONS)) pk = Inr k"
    and "decrypt env ivb k cb = Inr plain"
  shows "\<exists>r. fst (decryptBuffer env (Some pkg) (JString pw) w) = Inr r
           \<and> arrayBuffer r = plain
           \<and> computedHash r = ab2base64 (digest env plain)
           \<and> Digest plain \<in> set (calls (snd (decryptBuffer env (Some pkg) (JString pw) w)))
           \<and> ok r = (if truthy (hash pkg) then hash pkg = JString (computedHash r) else True)
           \<and> (hash pkg \<in> {JUndefined, JNull} \<longrightarrow> ok r)"
  using decryptBuffer_run [OF assms(1-7), of w] assms(8)
  by (auto simp: Let_def)

theorem integrity_flag_is_returned_witness:
  "\<exists>r. fst (decryptBuffer toy_subtle
              (Some \<lparr>ciphertext = JString (ab2base64 ([104, 105] @ toy_tag [112, 119, 1] [2])),
                     iv = ab2base64 [2], salt = ab2base64 [1],
                     iterations = JNumber 7, hash = JString ''AAAA''\<rparr>)
              (JString ''pw'') world0) = Inr r
       \<and> arrayBuffer r = [104, 105] \<and> ok r = False"
proof -
  let ?pkg = "\<lparr>ciphertext = JString (ab2base64 ([104, 105] @ toy_tag [112, 119, 1] [2])),
                iv = ab2base64 [2], salt = ab2base64 [1],
                iterations = JNumber 7, hash = JString ''AAAA''\<rparr>"
  have h1: "''pw'' \<noteq> []" by simp
  have h2: "ciphertext ?pkg = JString (ab2base64 ([104, 105] @ toy_tag [112, 119, 1] [2]))" by simp
  have h3: "base642ab (ab2base64 ([104, 105] @ toy_tag [112, 119, 1] [2]))
              = Inr ([104, 105] @ toy_tag [112, 119, 1] [2])"
    by (rule base642ab_ab2base64)
  have h4: "base642ab (iv ?pkg) = Inr [2]" by (simp add: base642ab_ab2base64)
  have h5: "base642ab (salt ?pkg) = Inr [1]" by (simp add: base642ab_ab2base64)
  have h6: "importKey toy_subtle (str2ab ''pw'') = Inr [112, 119]"
    by (simp add: toy_subtle_def str2ab_def utf8_def)
  have h7: "deriveKey toy_subtle [1] (js_or (iterations ?pkg) (JNumber PBKDF2_ITERATIONS)) [112, 119]
              = Inr [112, 119, 1]"
    by (simp add: toy_subtle_def js_or_def)
  have h8: "decrypt toy_subtle [2] [112, 119, 1] ([104, 105] @ toy_tag [112, 119, 1] [2]) = Inr [104, 105]"
    by (simp add: toy_subtle_def toy_tag_def)
  have d: "ab2base64 (digest toy_subtle [104, 105]) \<noteq> ''AAAA''"
    by code_simp
  show ?thesis
    using integrity_flag_is_returned [OF h1 h2 h3 h4 h5 h6 h7 h8, of world0] d by auto
qed

lemma decryptBuffer_calls:
  assumes "pw \<noteq> []"
    and "ciphertext pkg = JString c"
    and "base642ab c = Inr cb"
    and "base642ab (iv pkg) = Inr ivb"
    and "base642ab (salt pkg) = Inr sb"
    and "importKey env (str2ab pw) = Inr pk"
  shows "\<exists>rest. calls (snd (decryptBuffer env (Some pkg) (JString pw) w)) =
           calls w @ [ImportKey (str2ab pw),
                      DeriveKey sb (js_or (iterations pkg) (JNumber PBKDF2_ITERATIONS))] @ rest"
  using assms js_or_not_undefined [of "iterations pkg"]
  by (auto simp add: decryptBuffer_def password_ok_def deriveKeyFromPassword_run hashBufferToBase64_run
        subtle_decrypt_def async_defs Let_def
      split: sum.splits)

lemma decryptBuffer_iterations_cong:
  "js_or (iterations pkg) (JNumber PBKDF2_ITERATIONS) = js_or (iterations pkg') (JNumber PBKDF2_ITERATIONS)
   \<Longrightarrow> ciphertext pkg = ciphertext pkg' \<Longrightarrow> iv pkg = iv pkg' \<Longrightarrow> salt pkg = salt pkg'
   \<Longrightarrow> hash pkg = hash pkg'
   \<Longrightarrow> decryptBuffer env (Some pkg) password w = decryptBuffer env (Some pkg') password w"
  by (cases "ciphertext pkg'") (simp_all add: decryptBuffer_def Let_def)

text \<open>
  Claim C10. When the \<open>iterations\<close> field of a package is absent, \<open>null\<close> or zero,
  \<open>decryptBuffer\<close> behaves as on the package with \<open>iterations = 200000\<close> and asks the
  platform to derive the key with \<open>200000\<close> iterations; a stored non-zero number is
  the count it passes to the platform.
\<close>

theorem default_iterations_when_falsy:
  assumes "pw \<noteq> []"
    and "ciphertext pkg = JString c"
    and "base642ab c = Inr cb"
    and "base642ab (iv pkg) = Inr ivb"
    and "base642ab (salt pkg) = Inr sb"
    and "importKey env (str2ab pw) = Inr pk"
  shows "(iterations pkg \<in> {JUndefined, JNull, JNumber 0} \<longrightarrow>
            decryptBuffer env (Some pkg) (JString pw) w
              = decryptBuffer env (Some (pkg\<lparr>iterations := JNumber 200000\<rparr>)) (JString pw) w
          \<and> (\<exists>rest. calls (snd (decryptBuffer env (Some pkg) (JString pw) w)) =
                 calls w @ [ImportKey (str2ab pw), DeriveKey sb (JNumber 200000)] @ rest))
       \<and> (\<forall>n. n \<noteq> 0 \<and> iterations pkg = JNumber n \<longrightarrow>
            (\<exists>rest. calls (snd (decryptBuffer env (Some pkg) (JString pw) w)) =
                 calls w @ [ImportKey (str2ab pw), DeriveKey sb (JNumber n)] @ rest))"
proof (intro conjI impI allI)
  assume f: "iterations pkg \<in> {JUndefined, JNull, JNumber 0}"
  then have j: "js_or (iterations pkg) (JNumber PBKDF2_ITERATIONS) = JNumber 200000"
    by (auto simp: js_or_def PBKDF2_ITERATIONS_def)
  show "decryptBuffer env (Some pkg) (JString pw) w
          = decryptBuffer env (Some (pkg\<lparr>iterations := JNumber 200000\<rparr>)) (JString pw) w"
    by (rule decryptBuffer_iterations_cong)
       (simp_all add: j js_or_def [of "JNumber 200000"])
  show "\<exists>rest. calls (snd (decryptBuffer env (Some pkg) (JString pw) w)) =
                 calls w @ [ImportKey (str2ab pw), DeriveKey sb (JNumber 200000)] @ rest"
    using decryptBuffer_calls [OF assms, of w] by (simp only: j)
next
  fix n assume "n \<noteq> 0 \<and> iterations pkg = JNumber n"
  then have j: "js_or (iterations pkg) (JNumber PBKDF2_ITERATIONS) = JNumber n"
    by (simp add: js_or_def)
  show "\<exists>rest. calls (snd (decryptBuffer env (Some pkg) (JString pw) w)) =
                 calls w @ [ImportKey (str2ab pw), DeriveKey sb (JNumber n)] @ rest"
    using decryptBuffer_calls [OF assms, of w] by (simp only: j)
qed

theorem default_iterations_when_falsy_witness:
  "decryptBuffer toy_subtle
      (Some \<lparr>ciphertext = JString (ab2base64 [9]), iv = ab2base64 [2], salt = ab2base64 [1],
             iterations = JNull, hash = JUndefined\<rparr>) (JString ''pw'') world0
    = decryptBuffer toy_subtle
      (Some \<lparr>ciphertext = JString (ab2base64 [9]), iv = ab2base64 [2], salt = ab2base64 [1],
             iterations = JNumber 200000, hash = JUndefined\<rparr>) (JString ''pw'') world0
   \<and> (\<exists>rest. calls (snd (decryptBuffer toy_subtle
      (Some \<lparr>ciphertext = JString (ab2base64 [9]), iv = ab2base64 [2], salt = ab2base64 [1],
             iterations = JNull, hash = JUndefined\<rparr>) (JString ''pw'') world0)) =
         calls world0 @ [ImportKey (str2ab ''pw''), DeriveKey [1] (JNumber 200000)] @ rest)
   \<and> (\<exists>rest. calls (snd (decryptBuffer toy_subtle
      (Some \<lparr>ciphertext = JString (ab2base64 [9]), iv = ab2base64 [2], salt = ab2base64 [1],
             iterations = JNumber 5, hash = JUndefined\<rparr>) (JString ''pw'') world0)) =
         calls world0 @ [ImportKey (str2ab ''pw''), DeriveKey [1] (JNumber 5)] @ rest)"
proof -
  let ?p = "\<lparr>ciphertext = JString (ab2base64 [9]), iv = ab2base64 [2], salt = ab2base64 [1],
             iterations = JNull, hash = JUndefined\<rparr>"
  let ?q = "\<lparr>ciphertext = JString (ab2base64 [9]), iv = ab2base64 [2], salt = ab2base64 [1],
             iterations = JNumber 5, hash = JUndefined\<rparr>"
  have h1: "''pw'' \<noteq> []" by simp
  have h6: "importKey toy_subtle (str2ab ''pw'') = Inr (str2ab ''pw'')"
    by (simp add: toy_subtle_def)
  have p: "ciphertext ?p = JString (ab2base64 [9])" "base642ab (ab2base64 [9]) = Inr [9]"
    "base642ab (iv ?p) = Inr [2]" "base642ab (salt ?p) = Inr [1]"
    by (simp_all add: base642ab_ab2base64)
  have q: "ciphertext ?q = JString (ab2base64 [9])"
    "base642ab (iv ?q) = Inr [2]" "base642ab (salt ?q) = Inr [1]"
    by (simp_all add: base642ab_ab2base64)
  have m: "iterations ?p \<in> {JUndefined, JNull, JNumber 0}" by simp
  have n: "(5::int) \<noteq> 0 \<and> iterations ?q = JNumber 5" by simp
  have u: "?p\<lparr>iterations := JNumber 200000\<rparr> =
             \<lparr>ciphertext = JString (ab2base64 [9]), iv = ab2base64 [2], salt = ab2base64 [1],
              iterations = JNumber 200000, hash = JUndefined\<rparr>" by simp
  show ?thesis
    using default_iterations_when_falsy [OF h1 p(1) p(2) p(3) p(4) h6, of world0] m
          default_iterations_when_falsy [OF h1 q(1) p(2) q(2) q(3) h6, of world0] n
    unfolding u by blast
qed






section \<open>Tampered records and wrong passwords\<close>

lemma base642ab_error: "base642ab s = Inl e \<Longrightarrow> e = DOMException ''InvalidCharacterError''"
  by (auto simp: base642ab_def atob_def Let_def split: if_splits option.splits sum.splits)

lemma decryptBuffer_bad_base64:
  assumes "pw \<noteq> []"
    and "ciphertext pkg = JString c"
    and "base642ab c = Inl e \<or> base642ab (iv pkg) = Inl e \<or> base642ab (salt pkg) = Inl e"
  shows "decryptBuffer env (Some pkg) (JString pw) w = (Inl (DOMException ''InvalidCharacterError''), w)"
proof -
  show ?thesis
  proof (cases "base642ab c")
    case (Inl a)
    then have "a = DOMException ''InvalidCharacterError''" by (rule base642ab_error)
    with Inl assms(1,2) show ?thesis
      by (simp add: decryptBuffer_def password_ok_def async_defs)
  next
    case c: (Inr cb)
    show ?thesis
    proof (cases "base642ab (iv pkg)")
      case (Inl a)
      then have "a = DOMException ''InvalidCharacterError''" by (rule base642ab_error)
      with Inl c assms(1,2) show ?thesis
        by (simp add: decryptBuffer_def password_ok_def async_defs)
    next
      case i: (Inr ivb)
      from c i assms(3) have s: "base642ab (salt pkg) = Inl e" by simp
      then have "e = DOMException ''InvalidCharacterError''" by (rule base642ab_error)
      with s c i assms(1,2) show ?thesis
        by (simp add: decryptBuffer_def password_ok_def async_defs)
    qed
  qed
qed

lemma decryptBuffer_same_bytes:
  assumes "ciphertext pkg = JString c" and "ciphertext pkg0 = JString c0"
    and "base642ab c0 = base642ab c"
    and "base642ab (iv pkg0) = base642ab (iv pkg)"
    and "base642ab (salt pkg0) = base642ab (salt pkg)"
    and "iterations pkg0 = iterations pkg"
    and "hash pkg0 = hash pkg"
  shows "decryptBuffer env (Some pkg) password w = decryptBuffer env (Some pkg0) password w"
  using assms by (simp add: decryptBuffer_def Let_def)

lemma decryptBuffer_returns_what_decrypt_gave:
  assumes "fst (decryptBuffer env (Some pkg) (JString pw) w) = Inr r"
    and "ciphertext pkg = JString c"
  shows "\<exists>cb ivb sb pk k.
           base642ab c = Inr cb \<and> base642ab (iv pkg) = Inr ivb \<and> base642ab (salt pkg) = Inr sb
           \<and> importKey env (str2ab pw) = Inr pk
           \<and> deriveKey env sb (js_or (iterations pkg) (JNumber PBKDF2_ITERATIONS)) pk = Inr k
           \<and> decrypt env ivb k cb = Inr (arrayBuffer r)"
proof -
  have pw: "pw \<noteq> []"
  proof
    assume "pw = []"
    with assms show False
      by (simp add: decryptBuffer_def password_ok_def throw_def)
  qed
  obtain cb where cb: "base642ab c = Inr cb"
  proof (cases "base642ab c")
    case (Inl e)
    with decryptBuffer_bad_base64 [OF pw assms(2), of e env w] assms(1) show ?thesis by simp
  next
    case (Inr x)
    then show ?thesis by (rule that)
  qed
  obtain ivb where ivb: "base642ab (iv pkg) = Inr ivb"
  proof (cases "base642ab (iv pkg)")
    case (Inl e)
    with decryptBuffer_bad_base64 [OF pw assms(2), of e env w] assms(1) show ?thesis by simp
  next
    case (Inr x)
    then show ?thesis by (rule that)
  qed
  obtain sb where sb: "base642ab (salt pkg) = Inr sb"
  proof (cases "base642ab (salt pkg)")
    case (Inl e)
    with decryptBuffer_bad_base64 [OF pw assms(2), of e env w] assms(1) show ?thesis by simp
  next
    case (Inr x)
    then show ?thesis by (rule that)
  qed
  let ?its = "js_or (iterations pkg) (JNumber PBKDF2_ITERATIONS)"
  have run: "fst (decryptBuffer env (Some pkg) (JString pw) w) =
     (case importKey env (str2ab pw) of
        Inl e \<Rightarrow> Inl e
      | Inr pk \<Rightarrow>
         (case deriveKey env sb ?its pk of
            Inl e \<Rightarrow> Inl e
          | Inr k \<Rightarrow> fst (decryptBuffer env (Some pkg) (JString pw) w)))"
    using pw assms(2) cb ivb sb js_or_not_undefined [of "iterations pkg"]
    by (simp add: decryptBuffer_def password_ok_def deriveKeyFromPassword_run async_defs Let_def
          split: sum.splits)
  obtain pk where pk: "importKey env (str2ab pw) = Inr pk"
    using run assms(1) by (cases "importKey env (str2ab pw)") simp_all
  obtain k where k: "deriveKey env sb ?its pk = Inr k"
    using run assms(1) pk by (cases "deriveKey env sb ?its pk") simp_all
  have "decrypt env ivb k cb = Inr (arrayBuffer r)"
    using decryptBuffer_run [OF pw assms(2) cb ivb sb pk k, of w] assms(1)
    by (cases "decrypt env ivb k cb") (auto simp: Let_def)
  with cb ivb sb pk k show ?thesis by blast
qed

text \<open>
  Claim C3 says that any change of one byte of the \<open>ciphertext\<close>, \<open>iv\<close> or \<open>salt\<close> field
  of a record makes \<open>decryptBuffer\<close> raise \<open>WrongPasswordOrCorruptData\<close>. The fields are
  base64 text. The salt of the record below ends in \<open>Dw==\<close>; with \<open>Dx==\<close> in its place
  it still decodes to the same sixteen bytes, because \<open>atob\<close> drops the four left-over
  bits of the last character, and the decryption returns the plaintext.
\<close>

theorem tampered_salt_counterexample:
  "fst (encryptBuffer toy_subtle (JArrayBuffer [104, 105]) (JString ''pw'') world0) =
     Inr \<lparr>ciphertext = JString ''aGlwdwABAgMEBQYHCAkKCwwN'',
          iv = ''EBESExQVFhcYGRob'', salt = ''AAECAwQFBgcICQoLDA0ODw=='',
          iterations = JNumber 200000,
          hash = JString ''aGkAAAAAAAAAAAAAAAAAAAAAAAAAAAAAAAAAAAAAAAA=''\<rparr>
   \<and> fst (decryptBuffer toy_subtle
            (Some \<lparr>ciphertext = JString ''aGlwdwABAgMEBQYHCAkKCwwN'',
                   iv = ''EBESExQVFhcYGRob'', salt = ''AAECAwQFBgcICQoLDA0ODx=='',
                   iterations = JNumber 200000,
                   hash = JString ''aGkAAAAAAAAAAAAAAAAAAAAAAAAAAAAAAAAAAAAAAAA=''\<rparr>)
            (JString ''pw'') world0) =
     Inr \<lparr>arrayBuffer = [104, 105], ok = True,
          expectedHash = JString ''aGkAAAAAAAAAAAAAAAAAAAAAAAAAAAAAAAAAAAAAAAA='',
          computedHash = ''aGkAAAAAAAAAAAAAAAAAAAAAAAAAAAAAAAAAAAAAAAA=''\<rparr>"
  by code_simp

text \<open>
  Claim C3, amended. Whatever is written into the \<open>ciphertext\<close>, \<open>iv\<close> and \<open>salt\<close>
  fields of a record, \<open>decryptBuffer\<close> with a non-empty password
  \<^item> raises \<open>InvalidCharacterError\<close>, without touching the platform, when one of the
    three fields is not base64 text;
  \<^item> raises \<open>WrongPasswordOrCorruptData\<close> when the fields decode and the platform's
    \<open>decrypt\<close> rejects the decoded ciphertext under the decoded iv and the key derived
    from the decoded salt;
  \<^item> returns a plaintext only when \<open>decrypt\<close> accepts, and then the plaintext
    \<open>decrypt\<close> gave;
  \<^item> behaves as on the original record when the three fields decode to the same bytes.
\<close>

theorem tampered_record_outcomes:
  assumes "pw \<noteq> []" and "ciphertext pkg = JString c"
  shows "((\<exists>e. base642ab c = Inl e \<or> base642ab (iv pkg) = Inl e \<or> base642ab (salt pkg) = Inl e) \<longrightarrow>
            decryptBuffer env (Some pkg) (JString pw) w = (Inl (DOMException ''InvalidCharacterError''), w))
       \<and> (\<forall>cb ivb sb pk k.
            base642ab c = Inr cb \<and> base642ab (iv pkg) = Inr ivb \<and> base642ab (salt pkg) = Inr sb
            \<and> importKey env (str2ab pw) = Inr pk
            \<and> deriveKey env sb (js_or (iterations pkg) (JNumber PBKDF2_ITERATIONS)) pk = Inr k \<longrightarrow>
              ((\<exists>e. decrypt env ivb k cb = Inl e) \<longrightarrow>
                 fst (decryptBuffer env (Some pkg) (JString pw) w) = Inl WrongPasswordOrCorruptData)
            \<and> (\<forall>plain. decrypt env ivb k cb = Inr plain \<longrightarrow>
                 (\<exists>r. fst (decryptBuffer env (Some pkg) (JString pw) w) = Inr r \<and> arrayBuffer r = plain)))
       \<and> (\<forall>pkg0 c0.
            ciphertext pkg0 = JString c0 \<and> base642ab c0 = base642ab c
            \<and> base642ab (iv pkg0) = base642ab (iv pkg) \<and> base642ab (salt pkg0) = base642ab (salt pkg)
            \<and> iterations pkg0 = iterations pkg \<and> hash pkg0 = hash pkg \<longrightarrow>
              decryptBuffer env (Some pkg) (JString pw) w = decryptBuffer env (Some pkg0) (JString pw) w)"
proof (intro conjI impI allI)
  assume "\<exists>e. base642ab c = Inl e \<or> base642ab (iv pkg) = Inl e \<or> base642ab (salt pkg) = Inl e"
  then obtain e where "base642ab c = Inl e \<or> base642ab (iv pkg) = Inl e \<or> base642ab (salt pkg) = Inl e"
    by blast
  with assms show "decryptBuffer env (Some pkg) (JString pw) w = (Inl (DOMException ''InvalidCharacterError''), w)"
    by (rule decryptBuffer_bad_base64)
next
  fix cb ivb sb pk k
  assume h: "base642ab c = Inr cb \<and> base642ab (iv pkg) = Inr ivb \<and> base642ab (salt pkg) = Inr sb
            \<and> importKey env (str2ab pw) = Inr pk
            \<and> deriveKey env sb (js_or (iterations pkg) (JNumber PBKDF2_ITERATIONS)) pk = Inr k"
  note run = decryptBuffer_run [OF assms(1,2), of cb ivb sb env pk k w]
  {
    assume "\<exists>e. decrypt env ivb k cb = Inl e"
    then show "fst (decryptBuffer env (Some pkg) (JString pw) w) = Inl WrongPasswordOrCorruptData"
      using run h by (auto simp: Let_def)
  }
  {
    fix plain assume "decrypt env ivb k cb = Inr plain"
    then show "\<exists>r. fst (decryptBuffer env (Some pkg) (JString pw) w) = Inr r \<and> arrayBuffer r = plain"
      using run h by (auto simp: Let_def)
  }
next
  fix pkg0 :: encrypted_package and c0
  assume "ciphertext pkg0 = JString c0 \<and> base642ab c0 = base642ab c
            \<and> base642ab (iv pkg0) = base642ab (iv pkg) \<and> base642ab (salt pkg0) = base642ab (salt pkg)
            \<and> iterations pkg0 = iterations pkg \<and> hash pkg0 = hash pkg"
  then show "decryptBuffer env (Some pkg) (JString pw) w = decryptBuffer env (Some pkg0) (JString pw) w"
    using decryptBuffer_same_bytes [OF assms(2), of pkg0 c0 env "JString pw" w] by blast
qed

theorem tampered_record_outcomes_witness:
  "decryptBuffer toy_subtle
      (Some \<lparr>ciphertext = JString ''!'', iv = ab2base64 [2], salt = ab2base64 [1],
             iterations = JNumber 7, hash = JNull\<rparr>) (JString ''pw'') world0
     = (Inl (DOMException ''InvalidCharacterError''), world0)
   \<and> fst (decryptBuffer toy_subtle
      (Some \<lparr>ciphertext = JString (ab2base64 ([104, 106] @ toy_tag [112, 119, 1] [2])),
             iv = ab2base64 [2], salt = ab2base64 [3],
             iterations = JNumber 7, hash = JNull\<rparr>) (JString ''pw'') world0)
     = Inl WrongPasswordOrCorruptData
   \<and> (\<exists>r. fst (decryptBuffer toy_subtle
      (Some \<lparr>ciphertext = JString (ab2base64 ([104, 106] @ toy_tag [112, 119, 1] [2])),
             iv = ab2base64 [2], salt = ab2base64 [1],
             iterations = JNumber 7, hash = JNull\<rparr>) (JString ''pw'') world0) = Inr r
          \<and> arrayBuffer r = [104, 106])"
proof -
  let ?bad = "\<lparr>ciphertext = JString ''!'', iv = ab2base64 [2], salt = ab2base64 [1],
               iterations = JNumber 7, hash = JNull\<rparr>"
  let ?c = "ab2base64 ([104, 106] @ toy_tag [112, 119, 1] [2])"
  let ?salted = "\<lparr>ciphertext = JString ?c, iv = ab2base64 [2], salt = ab2base64 [3],
                  iterations = JNumber 7, hash = JNull\<rparr>"
  let ?good = "\<lparr>ciphertext = JString ?c, iv = ab2base64 [2], salt = ab2base64 [1],
                iterations = JNumber 7, hash = JNull\<rparr>"
  have pw: "''pw'' \<noteq> []" by simp
  have imp: "importKey toy_subtle (str2ab ''pw'') = Inr [112, 119]"
    by (simp add: toy_subtle_def str2ab_def utf8_def)
  have bad: "base642ab ''!'' = Inl (DOMException ''InvalidCharacterError'')"
    by code_simp
  have a: "decryptBuffer toy_subtle (Some ?bad) (JString ''pw'') world0
             = (Inl (DOMException ''InvalidCharacterError''), world0)"
    using tampered_record_outcomes [OF pw, of ?bad "''!''" toy_subtle world0] bad
    by (simp only: encrypted_package.simps) blast
  have b: "fst (decryptBuffer toy_subtle (Some ?salted) (JString ''pw'') world0)
             = Inl WrongPasswordOrCorruptData"
  proof -
    have d: "deriveKey toy_subtle [3] (js_or (iterations ?salted) (JNumber PBKDF2_ITERATIONS)) [112, 119]
               = Inr [112, 119, 3]"
      by (simp add: toy_subtle_def js_or_def)
    have r: "\<exists>e. decrypt toy_subtle [2] [112, 119, 3] ([104, 106] @ toy_tag [112, 119, 1] [2]) = Inl e"
      by (simp add: toy_subtle_def toy_tag_def)
    have f: "base642ab ?c = Inr ([104, 106] @ toy_tag [112, 119, 1] [2])
             \<and> base642ab (iv ?salted) = Inr [2] \<and> base642ab (salt ?salted) = Inr [3]
             \<and> importKey toy_subtle (str2ab ''pw'') = Inr [112, 119]
             \<and> deriveKey toy_subtle [3] (js_or (iterations ?salted) (JNumber PBKDF2_ITERATIONS)) [112, 119]
                 = Inr [112, 119, 3]"
      using imp d by (simp add: base642ab_ab2base64)
    have "ciphertext ?salted = JString ?c" by simp
    from tampered_record_outcomes [OF pw this, of toy_subtle world0] f r
    show ?thesis by blast
  qed
  have c: "\<exists>r. fst (decryptBuffer toy_subtle (Some ?good) (JString ''pw'') world0) = Inr r
             \<and> arrayBuffer r = [104, 106]"
  proof -
    have d: "deriveKey toy_subtle [1] (js_or (iterations ?good) (JNumber PBKDF2_ITERATIONS)) [112, 119]
               = Inr [112, 119, 1]"
      by (simp add: toy_subtle_def js_or_def)
    have r: "decrypt toy_subtle [2] [112, 119, 1] ([104, 106] @ toy_tag [112, 119, 1] [2]) = Inr [104, 106]"
      by (simp add: toy_subtle_def toy_tag_def)
    have f: "base642ab ?c = Inr ([104, 106] @ toy_tag [112, 119, 1] [2])
             \<and> base642ab (iv ?good) = Inr [2] \<and> base642ab (salt ?good) = Inr [1]
             \<and> importKey toy_subtle (str2ab ''pw'') = Inr [112, 119]
             \<and> deriveKey toy_subtle [1] (js_or (iterations ?good) (JNumber PBKDF2_ITERATIONS)) [112, 119]
                 = Inr [112, 119, 1]"
      using imp d by (simp add: base642ab_ab2base64)
    have "ciphertext ?good = JString ?c" by simp
    from tampered_record_outcomes [OF pw this, of toy_subtle world0] f r
    show ?thesis by blast
  qed
  from a b c show ?thesis by blast
qed

lemma decrypt_other_password_run:
  assumes "pw2 \<noteq> []"
    and "importKey env (str2ab pw2) = Inr pk2"
    and "deriveKey env (fresh_salt w) (JNumber PBKDF2_ITERATIONS) pk2 = Inr k2"
    and "pkg = \<lparr>ciphertext = JString (ab2base64 c), iv = ab2base64 (fresh_iv w),
          salt = ab2base64 (fresh_salt w), iterations = JNumber PBKDF2_ITERATIONS,
          hash = JString (ab2base64 (digest env plain))\<rparr>"
  shows "fst (decryptBuffer env (Some pkg) (JString pw2) w') =
     (case decrypt env (fresh_iv w) k2 c of
        Inl e \<Rightarrow> Inl WrongPasswordOrCorruptData
      | Inr plain' \<Rightarrow>
          Inr \<lparr>arrayBuffer = plain',
               ok = (if truthy (hash pkg) then JString (ab2base64 (digest env plain')) = hash pkg else True),
               expectedHash = js_or (hash pkg) JNull,
               computedHash = ab2base64 (digest env plain')\<rparr>)"
proof -
  have "decryptBuffer env (Some pkg) (JString pw2) w' =
     (let trace = [ImportKey (str2ab pw2),
                   DeriveKey (fresh_salt w) (js_or (iterations pkg) (JNumber PBKDF2_ITERATIONS)),
                   Decrypt (fresh_iv w) c] in
      case decrypt env (fresh_iv w) k2 c of
        Inl e \<Rightarrow> (Inl WrongPasswordOrCorruptData, w'\<lparr>calls := calls w' @ trace\<rparr>)
      | Inr plain \<Rightarrow>
          (Inr \<lparr>arrayBuffer = plain,
                ok = (if truthy (hash pkg) then JString (ab2base64 (digest env plain)) = hash pkg else True),
                expectedHash = js_or (hash pkg) JNull,
                computedHash = ab2base64 (digest env plain)\<rparr>,
           w'\<lparr>calls := calls w' @ trace @ [Digest plain]\<rparr>))"
    by (rule decryptBuffer_run [where pk = pk2 and c = "ab2base64 c"])
       (simp_all add: assms base642ab_ab2base64 truthy_iterations)
  then show ?thesis
    by (simp add: Let_def split: sum.splits)
qed

subsection \<open>Passwords that PBKDF2 with HMAC does not tell apart\<close>

lemma hmac_key_nul:
  assumes "length key < 64"
  shows "hmac_key H (key @ [0]) = hmac_key H key"
proof -
  have "64 - length key = Suc (63 - length key)" using assms by simp
  then have "replicate (64 - length key) (0::byte) = 0 # replicate (63 - length key) 0"
    by simp
  then show ?thesis using assms by (simp add: hmac_key_def)
qed

lemma hmac_nul: "length key < 64 \<Longrightarrow> hmac H (key @ [0]) msg = hmac H key msg"
  by (simp add: hmac_def hmac_key_nul)

lemma pbkdf2_rounds_nul:
  "length key < 64 \<Longrightarrow> pbkdf2_rounds H (key @ [0]) u acc n = pbkdf2_rounds H key u acc n"
  by (induction n arbitrary: u acc) (simp_all add: hmac_nul Let_def)

lemma pbkdf2_nul: "length key < 64 \<Longrightarrow> pbkdf2 H (key @ [0]) salt' c = pbkdf2 H key salt' c"
  by (simp add: pbkdf2_def hmac_nul pbkdf2_rounds_nul)

lemma str2ab_nul: "str2ab (pw @ [CHR 0x00]) = str2ab pw @ [0]"
  by (simp add: str2ab_def utf8_def)

lemma with_pbkdf2_nul:
  assumes "length (str2ab pw) < 64"
  shows "deriveKey (with_pbkdf2 env) salt' its (str2ab (pw @ [CHR 0x00]))
           = deriveKey (with_pbkdf2 env) salt' its (str2ab pw)"
  using assms by (simp add: with_pbkdf2_def str2ab_nul pbkdf2_nul split: jsval.splits)

lemma with_pbkdf2_inverse: "aes_gcm_inverse env \<Longrightarrow> aes_gcm_inverse (with_pbkdf2 env)"
  by (simp add: aes_gcm_inverse_def with_pbkdf2_def)

lemma with_pbkdf2_derives:
  "deriveKey (with_pbkdf2 env) salt' (JNumber PBKDF2_ITERATIONS) key
     = Inr (pbkdf2 (digest env) key salt' 200000)"
  by (simp add: with_pbkdf2_def PBKDF2_ITERATIONS_def)

lemma nul_password_decrypts:
  assumes "aes_gcm_inverse env"
    and "pw \<noteq> []"
    and "length (str2ab pw) < 64"
    and "encrypt env (fresh_iv w) (pbkdf2 (digest env) (str2ab pw) (fresh_salt w) 200000) plain = Inr c"
  shows "\<exists>pkg r. fst (encryptBuffer (with_pbkdf2 env) (JArrayBuffer plain) (JString pw) w) = Inr pkg
           \<and> fst (decryptBuffer (with_pbkdf2 env) (Some pkg) (JString (pw @ [CHR 0x00])) w') = Inr r
           \<and> arrayBuffer r = plain \<and> ok r"
proof -
  let ?env = "with_pbkdf2 env"
  let ?k = "pbkdf2 (digest env) (str2ab pw) (fresh_salt w) 200000"
  let ?pkg = "\<lparr>ciphertext = JString (ab2base64 c), iv = ab2base64 (fresh_iv w),
          salt = ab2base64 (fresh_salt w), iterations = JNumber PBKDF2_ITERATIONS,
          hash = JString (ab2base64 (digest ?env plain))\<rparr>"
  have imp: "importKey ?env x = Inr x" for x by (simp add: with_pbkdf2_def)
  have enc: "encrypt ?env (fresh_iv w) ?k plain = Inr c"
    using assms(4) by (simp add: with_pbkdf2_def)
  have dec: "decrypt ?env (fresh_iv w) ?k c = Inr plain"
    using with_pbkdf2_inverse [OF assms(1)] enc unfolding aes_gcm_inverse_def by blast
  have e: "fst (encryptBuffer ?env (JArrayBuffer plain) (JString pw) w) = Inr ?pkg"
    by (rule encryptBuffer_run [OF assms(2) imp with_pbkdf2_derives enc])
  have k2: "deriveKey ?env (fresh_salt w) (JNumber PBKDF2_ITERATIONS) (str2ab (pw @ [CHR 0x00])) = Inr ?k"
    by (simp only: with_pbkdf2_nul [OF assms(3)] with_pbkdf2_derives)
  have "pw @ [CHR 0x00] \<noteq> []" by simp
  from decrypt_other_password_run [OF this imp k2 refl, of c plain w']
  have "fst (decryptBuffer ?env (Some ?pkg) (JString (pw @ [CHR 0x00])) w') =
          Inr \<lparr>arrayBuffer = plain,
               ok = (if truthy (hash ?pkg) then JString (ab2base64 (digest ?env plain)) = hash ?pkg else True),
               expectedHash = js_or (hash ?pkg) JNull,
               computedHash = ab2base64 (digest ?env plain)\<rparr>"
    by (simp add: dec)
  with e show ?thesis by simp
qed

text \<open>
  Claim C2 says that decrypting with any other password raises
  \<open>WrongPasswordOrCorruptData\<close>. The key is derived by PBKDF2 with HMAC, and HMAC fills
  its key with zero bytes: the password \<open>a\<close> and the password \<open>a\<close> followed by the
  character \<open>U+0000\<close> derive the same key, so the second decrypts what the first
  encrypted. The hash and the cipher of the platform below are those of \<open>toy_subtle\<close>;
  \<open>nul_password_decrypts\<close> is the same fact for every hash and every cipher.
\<close>

theorem wrong_password_counterexample:
  "''a'' \<noteq> [CHR ''a'', CHR 0x00]
   \<and> \<not> isl (fst (encryptBuffer (with_pbkdf2 toy_subtle) (JArrayBuffer [104, 105]) (JString ''a'') world0))
   \<and> fst (decryptBuffer (with_pbkdf2 toy_subtle)
            (Some (projr (fst (encryptBuffer (with_pbkdf2 toy_subtle)
                                (JArrayBuffer [104, 105]) (JString ''a'') world0))))
            (JString [CHR ''a'', CHR 0x00]) world0)
       \<noteq> Inl WrongPasswordOrCorruptData
   \<and> arrayBuffer (projr (fst (decryptBuffer (with_pbkdf2 toy_subtle)
            (Some (projr (fst (encryptBuffer (with_pbkdf2 toy_subtle)
                                (JArrayBuffer [104, 105]) (JString ''a'') world0))))
            (JString [CHR ''a'', CHR 0x00]) world0))) = [104, 105]"
proof -
  have h1: "''a'' \<noteq> []" by simp
  have h2: "length (str2ab ''a'') < 64" by (simp add: str2ab_def utf8_def)
  have h3: "encrypt toy_subtle (fresh_iv world0)
              (pbkdf2 (digest toy_subtle) (str2ab ''a'') (fresh_salt world0) 200000) [104, 105]
            = Inr ([104, 105] @ toy_tag (pbkdf2 (digest toy_subtle) (str2ab ''a'') (fresh_salt world0) 200000)
                                  (fresh_iv world0))"
    by (simp add: toy_subtle_def)
  from nul_password_decrypts [OF toy_inverse h1 h2 h3, of world0]
  obtain pkg r where
    e: "fst (encryptBuffer (with_pbkdf2 toy_subtle) (JArrayBuffer [104, 105]) (JString ''a'') world0) = Inr pkg"
    and d: "fst (decryptBuffer (with_pbkdf2 toy_subtle) (Some pkg) (JString (''a'' @ [CHR 0x00])) world0) = Inr r"
    and p: "arrayBuffer r = [104, 105]"
    by blast
  from d have d': "fst (decryptBuffer (with_pbkdf2 toy_subtle) (Some pkg) (JString [CHR ''a'', CHR 0x00]) world0) = Inr r"
    by simp
  show ?thesis
    by (simp only: e d' p sum.sel sum.disc) simp
qed

text \<open>
  Claim C2, amended. Let \<open>encryptBuffer\<close> have produced a package under the password
  \<open>pw1\<close>, and let \<open>pw2\<close> be a non-empty password whose key the platform imports and
  derives. Then \<open>decryptBuffer\<close> with \<open>pw2\<close> raises \<open>WrongPasswordOrCorruptData\<close> exactly
  when the platform's \<open>decrypt\<close> rejects the ciphertext under the key derived from \<open>pw2\<close>,
  and it raises that one error whatever the rejection was.
\<close>

theorem wrong_password_outcome:
  assumes "pw1 \<noteq> []"
    and "importKey env (str2ab pw1) = Inr pk1"
    and "deriveKey env (fresh_salt w) (JNumber PBKDF2_ITERATIONS) pk1 = Inr k1"
    and "encrypt env (fresh_iv w) k1 plain = Inr c"
    and "pw2 \<noteq> []"
    and "importKey env (str2ab pw2) = Inr pk2"
    and "deriveKey env (fresh_salt w) (JNumber PBKDF2_ITERATIONS) pk2 = Inr k2"
  shows "\<exists>pkg. fst (encryptBuffer env (JArrayBuffer plain) (JString pw1) w) = Inr pkg
           \<and> (fst (decryptBuffer env (Some pkg) (JString pw2) w') = Inl WrongPasswordOrCorruptData
                \<longleftrightarrow> (\<exists>e. decrypt env (fresh_iv w) k2 c = Inl e))"
proof -
  let ?pkg = "\<lparr>ciphertext = JString (ab2base64 c), iv = ab2base64 (fresh_iv w),
          salt = ab2base64 (fresh_salt w), iterations = JNumber PBKDF2_ITERATIONS,
          hash = JString (ab2base64 (digest env plain))\<rparr>"
  have e: "fst (encryptBuffer env (JArrayBuffer plain) (JString pw1) w) = Inr ?pkg"
    by (rule encryptBuffer_run [OF assms(1-4)])
  have "fst (decryptBuffer env (Some ?pkg) (JString pw2) w') = Inl WrongPasswordOrCorruptData
          \<longleftrightarrow> (\<exists>e. decrypt env (fresh_iv w) k2 c = Inl e)"
    using decrypt_other_password_run [OF assms(5-7) refl, of c plain w']
    by (cases "decrypt env (fresh_iv w) k2 c") simp_all
  with e show ?thesis by blast
qed

theorem wrong_password_outcome_witness:
  "\<exists>pkg. fst (encryptBuffer toy_subtle (JArrayBuffer [104, 105]) (JString ''pw'') world0) = Inr pkg
      \<and> fst (decryptBuffer toy_subtle (Some pkg) (JString ''px'') world0) = Inl WrongPasswordOrCorruptData"
proof -
  have h1: "''pw'' \<noteq> []" and h5: "''px'' \<noteq> []" by simp_all
  have h2: "importKey toy_subtle (str2ab ''pw'') = Inr (str2ab ''pw'')"
    and h6: "importKey toy_subtle (str2ab ''px'') = Inr (str2ab ''px'')"
    by (simp_all add: toy_subtle_def)
  have h3: "deriveKey toy_subtle (fresh_salt world0) (JNumber PBKDF2_ITERATIONS) (str2ab ''pw'')
              = Inr (str2ab ''pw'' @ fresh_salt world0)"
    and h7: "deriveKey toy_subtle (fresh_salt world0) (JNumber PBKDF2_ITERATIONS) (str2ab ''px'')
              = Inr (str2ab ''px'' @ fresh_salt world0)"
    by (simp_all add: toy_subtle_def PBKDF2_ITERATIONS_def)
  have h4: "encrypt toy_subtle (fresh_iv world0) (str2ab ''pw'' @ fresh_salt world0) [104, 105]
              = Inr ([104, 105] @ toy_tag (str2ab ''pw'' @ fresh_salt world0) (fresh_iv world0))"
    by (simp add: toy_subtle_def)
  have "decrypt toy_subtle (fresh_iv world0) (str2ab ''px'' @ fresh_salt world0)
          ([104, 105] @ toy_tag (str2ab ''pw'' @ fresh_salt world0) (fresh_iv world0))
        = Inl (DOMException ''OperationError'')"
    by code_simp
  then have rej: "\<exists>e. decrypt toy_subtle (fresh_iv world0) (str2ab ''px'' @ fresh_salt world0)
                 ([104, 105] @ toy_tag (str2ab ''pw'' @ fresh_salt world0) (fresh_iv world0)) = Inl e"
    by blast
  from wrong_password_outcome [OF h1 h2 h3 h4 h5 h6 h7, of world0] rej
  show ?thesis by blast
qed

section \<open>The session\<close>

lemmas app_defs = modify_def in_world_def getAllFiles_def getFile_def showMessage_def
  refreshFileList_def setUnlockedState_def

lemma tryUnlock_empty_store:
  assumes "files_store s = []"
  shows "tryUnlock env password s =
     (Inr True, s\<lparr>sessionPassword := password, unlocked := True,
                   messages := messages s @ [(''Explorer unlocked (no files to validate).'', ''info'')],
                   storedFiles := []\<rparr>)"
  using assms by (simp add: tryUnlock_def app_defs async_defs)

lemma tryUnlock_accepts:
  assumes "files_store s = sample # rest"
    and "decryptBuffer env (Some (package_of sample)) password (world s) = (Inr r, w')"
  shows "tryUnlock env password s =
     (Inr True, s\<lparr>world := w', sessionPassword := password, unlocked := True,
                   messages := messages s @ [(''Explorer unlocked.'', ''info'')],
                   storedFiles := sort_key (\<lambda>r. - createdAt r) (files_store s)\<rparr>)"
  using assms by (simp add: tryUnlock_def app_defs async_defs)

lemma tryUnlock_rejects:
  assumes "files_store s = sample # rest"
    and "decryptBuffer env (Some (package_of sample)) password (world s) = (Inl e, w')"
  shows "tryUnlock env password s =
     (Inr False, s\<lparr>world := w', unlocked := False, sessionPassword := JNull,
                    messages := messages s @ [(''Wrong password. Unlock failed.'', ''error'')]\<rparr>)"
  using assms by (simp add: tryUnlock_def app_defs async_defs)

lemma page0_locked: "unlocked (page0 store) = False \<and> sessionPassword (page0 store) = JNull
    \<and> files_store (page0 store) = store \<and> world (page0 store) = world0
    \<and> messages (page0 store) = []"
  by (simp add: page0_def page_load_def init_def app_defs async_defs)

text \<open>
  Claim C5 says that on a non-empty store \<open>tryUnlock\<close> accepts if and only if the trial
  decryption does not raise \<open>WrongPasswordOrCorruptData\<close>. Its \<open>catch\<close> takes every
  exception: with the empty password \<open>decryptBuffer\<close> raises its input error, with a
  first record whose ciphertext is not base64 it raises \<open>InvalidCharacterError\<close>;
  neither is \<open>WrongPasswordOrCorruptData\<close>, and \<open>tryUnlock\<close> refuses both times.
\<close>

theorem unlock_other_errors_counterexample:
  "fst (decryptBuffer toy_subtle (Some (package_of record0)) (JString []) world0)
      = Inl (Error ''password must be a non-empty string'')
   \<and> Error ''password must be a non-empty string'' \<noteq> WrongPasswordOrCorruptData
   \<and> fst (tryUnlock toy_subtle (JString []) (page0 [record0])) = Inr False
   \<and> unlocked (snd (tryUnlock toy_subtle (JString []) (page0 [record0]))) = False
   \<and> fst (decryptBuffer toy_subtle (Some (package_of corrupt_record)) (JString ''pw'') world0)
      = Inl (DOMException ''InvalidCharacterError'')
   \<and> DOMException ''InvalidCharacterError'' \<noteq> WrongPasswordOrCorruptData
   \<and> fst (tryUnlock toy_subtle (JString ''pw'') (page0 [corrupt_record])) = Inr False
   \<and> unlocked (snd (tryUnlock toy_subtle (JString ''pw'') (page0 [corrupt_record]))) = False"
proof -
  have a: "decryptBuffer toy_subtle (Some (package_of record0)) (JString []) world0
             = (Inl (Error ''password must be a non-empty string''), world0)"
    by (simp add: decryptBuffer_def package_of_def record0_def password_ok_def throw_def)
  have bad: "base642ab ''!'' = Inl (DOMException ''InvalidCharacterError'')"
    by code_simp
  have b: "decryptBuffer toy_subtle (Some (package_of corrupt_record)) (JString ''pw'') world0
             = (Inl (DOMException ''InvalidCharacterError''), world0)"
    by (rule decryptBuffer_bad_base64 [where c = "''!''" and e = "DOMException ''InvalidCharacterError''"])
       (simp_all add: package_of_def corrupt_record_def record0_def bad)
  have s0: "files_store (page0 [record0]) = record0 # []" "world (page0 [record0]) = world0"
    and s1: "files_store (page0 [corrupt_record]) = corrupt_record # []"
            "world (page0 [corrupt_record]) = world0"
    by (simp_all add: page0_locked)
  have ta: "tryUnlock toy_subtle (JString []) (page0 [record0]) =
     (Inr False, (page0 [record0])\<lparr>world := world0, unlocked := False, sessionPassword := JNull,
        messages := messages (page0 [record0]) @ [(''Wrong password. Unlock failed.'', ''error'')]\<rparr>)"
    by (rule tryUnlock_rejects [OF s0(1)]) (simp add: s0(2) a)
  have tb: "tryUnlock toy_subtle (JString ''pw'') (page0 [corrupt_record]) =
     (Inr False, (page0 [corrupt_record])\<lparr>world := world0, unlocked := False, sessionPassword := JNull,
        messages := messages (page0 [corrupt_record]) @ [(''Wrong password. Unlock failed.'', ''error'')]\<rparr>)"
    by (rule tryUnlock_rejects [OF s1(1)]) (simp add: s1(2) b)
  show ?thesis
    by (simp add: a b ta tb WrongPasswordOrCorruptData_def)
qed

text \<open>
  Claim C5, amended. On an empty store \<open>tryUnlock\<close> accepts: it returns true, stores
  the password and unlocks, without any call to the platform. On a non-empty store
  it runs \<open>decryptBuffer\<close> on the first record and on nothing else; it accepts,
  stores the password and unlocks if and only if that decryption raises no exception
  at all; on any exception it returns false, the session is locked with no password,
  and \<open>Wrong password. Unlock failed.\<close> is reported.
\<close>

theorem unlock_by_trial_decryption:
  "(files_store s = [] \<longrightarrow>
      fst (tryUnlock env password s) = Inr True
      \<and> sessionPassword (snd (tryUnlock env password s)) = password
      \<and> unlocked (snd (tryUnlock env password s))
      \<and> world (snd (tryUnlock env password s)) = world s)
   \<and> (\<forall>sample rest. files_store s = sample # rest \<longrightarrow>
        world (snd (tryUnlock env password s))
          = snd (decryptBuffer env (Some (package_of sample)) password (world s))
        \<and> (\<not> isl (fst (decryptBuffer env (Some (package_of sample)) password (world s))) \<longrightarrow>
              fst (tryUnlock env password s) = Inr True
              \<and> sessionPassword (snd (tryUnlock env password s)) = password
              \<and> unlocked (snd (tryUnlock env password s)))
        \<and> (isl (fst (decryptBuffer env (Some (package_of sample)) password (world s))) \<longrightarrow>
              fst (tryUnlock env password s) = Inr False
              \<and> \<not> unlocked (snd (tryUnlock env password s))
              \<and> sessionPassword (snd (tryUnlock env password s)) = JNull
              \<and> messages (snd (tryUnlock env password s))
                  = messages s @ [(''Wrong password. Unlock failed.'', ''error'')]))"
proof (intro conjI impI allI)
  assume "files_store s = []"
  note e = tryUnlock_empty_store [OF this, of env password]
  show "fst (tryUnlock env password s) = Inr True"
    and "sessionPassword (snd (tryUnlock env password s)) = password"
    and "unlocked (snd (tryUnlock env password s))"
    and "world (snd (tryUnlock env password s)) = world s"
    by (simp_all add: e)
next
  fix sample rest
  assume st: "files_store s = sample # rest"
  obtain r w' where d: "decryptBuffer env (Some (package_of sample)) password (world s) = (r, w')"
    by (cases "decryptBuffer env (Some (package_of sample)) password (world s)")
  show "world (snd (tryUnlock env password s))
          = snd (decryptBuffer env (Some (package_of sample)) password (world s))"
  proof (cases r)
    case (Inl e)
    with d tryUnlock_rejects [OF st, of env password e w'] show ?thesis by simp
  next
    case (Inr v)
    with d tryUnlock_accepts [OF st, of env password v w'] show ?thesis by simp
  qed
  {
    assume "\<not> isl (fst (decryptBuffer env (Some (package_of sample)) password (world s)))"
    with d obtain v where "r = Inr v" by (cases r) simp_all
    with d have t: "tryUnlock env password s =
       (Inr True, s\<lparr>world := w', sessionPassword := password, unlocked := True,
                   messages := messages s @ [(''Explorer unlocked.'', ''info'')],
                   storedFiles := sort_key (\<lambda>r. - createdAt r) (files_store s)\<rparr>)"
      using tryUnlock_accepts [OF st, of env password v w'] by simp
    show "fst (tryUnlock env password s) = Inr True"
      and "sessionPassword (snd (tryUnlock env password s)) = password"
      and "unlocked (snd (tryUnlock env password s))"
      by (simp_all add: t)
  }
  {
    assume "isl (fst (decryptBuffer env (Some (package_of sample)) password (world s)))"
    with d obtain e where "r = Inl e" by (cases r) simp_all
    with d have t: "tryUnlock env password s =
       (Inr False, s\<lparr>world := w', unlocked := False, sessionPassword := JNull,
                    messages := messages s @ [(''Wrong password. Unlock failed.'', ''error'')]\<rparr>)"
      using tryUnlock_rejects [OF st, of env password e w'] by simp
    show "fst (tryUnlock env password s) = Inr False"
      and "\<not> unlocked (snd (tryUnlock env password s))"
      and "sessionPassword (snd (tryUnlock env password s)) = JNull"
      and "messages (snd (tryUnlock env password s))
            = messages s @ [(''Wrong password. Unlock failed.'', ''error'')]"
      by (simp_all add: t)
  }
qed

theorem unlock_by_trial_decryption_witness:
  "fst (tryUnlock toy_subtle (JString ''pw'') (page0 [])) = Inr True
   \<and> sessionPassword (snd (tryUnlock toy_subtle (JString ''pw'') (page0 []))) = JString ''pw''
   \<and> fst (tryUnlock toy_subtle (JString ''pw'') (page0 [record0])) = Inr True
   \<and> unlocked (snd (tryUnlock toy_subtle (JString ''pw'') (page0 [record0])))
   \<and> fst (tryUnlock toy_subtle (JString ''px'') (page0 [record0])) = Inr False
   \<and> sessionPassword (snd (tryUnlock toy_subtle (JString ''px'') (page0 [record0]))) = JNull"
proof -
  have e: "files_store (page0 []) = []" by (simp add: page0_locked)
  have s: "files_store (page0 [record0]) = record0 # []" by (simp add: page0_locked)
  have w: "world (page0 [record0]) = world0" by (simp add: page0_locked)
  have good: "\<not> isl (fst (decryptBuffer toy_subtle (Some (package_of record0)) (JString ''pw'') world0))"
    by code_simp
  have wrong: "isl (fst (decryptBuffer toy_subtle (Some (package_of record0)) (JString ''px'') world0))"
    by code_simp
  from unlock_by_trial_decryption [of "page0 []" toy_subtle "JString ''pw''"] e
       unlock_by_trial_decryption [of "page0 [record0]" toy_subtle "JString ''pw''"]
       unlock_by_trial_decryption [of "page0 [record0]" toy_subtle "JString ''px''"] s good wrong
  show ?thesis unfolding w by blast
qed

subsection \<open>Operations offered while locked\<close>

lemma delete_all_world:
  "\<exists>s'. for_each xs (\<lambda>f. await (deleteFile (name f)) (\<lambda>_. resolve ())) s = (Inr (), s')
        \<and> world s' = world s"
proof (induction xs arbitrary: s)
  case Nil
  then show ?case by (simp add: resolve_def)
next
  case (Cons x xs)
  obtain s1 where d: "await (deleteFile (name x)) (\<lambda>_. resolve ()) s = (Inr (), s1)"
    and w1: "world s1 = world s"
    by (simp add: deleteFile_def modify_def async_defs)
  from Cons.IH [of s1] obtain s' where
    "for_each xs (\<lambda>f. await (deleteFile (name f)) (\<lambda>_. resolve ())) s1 = (Inr (), s')"
    and "world s' = world s1" by blast
  with d w1 show ?case by (simp add: await_def)
qed

lemma resetYes_click_world: "world (snd (resetYes_click s)) = world s"
proof -
  from delete_all_world [of "files_store s" s] obtain s' where
    "for_each (files_store s) (\<lambda>f. await (deleteFile (name f)) (\<lambda>_. resolve ())) s = (Inr (), s')"
    and "world s' = world s"
    by blast
  then show ?thesis
    by (simp add: resetYes_click_def getAllFiles_def setUnlockedState_def showMessage_def
          modify_def async_defs)
qed

lemma lockButton_click_world: "world (snd (lockButton_click s)) = world s"
  by (simp add: lockButton_click_def page_load_def init_def app_defs async_defs)

lemma locked_handle_no_calls:
  assumes "\<not> unlocked s" and "\<forall>pwd. ev \<noteq> UnlockClick pwd"
  shows "calls (world (snd (handle env ev s))) = calls (world s)"
proof (cases ev)
  case (UnlockClick pwd)
  with assms(2) show ?thesis by simp
next
  case (FilesChosen files)
  with assms(1) show ?thesis
    by (simp add: files_chosen_def handleFilesAdded_def showMessage_def modify_def resolve_def)
next
  case (ActionClick n)
  with assms(1) show ?thesis
    by (simp add: actionBtn_click_def showMessage_def modify_def)
next
  case (DownloadClick checked)
  with assms(1) show ?thesis
    by (simp add: downloadBtn_click_def showMessage_def modify_def)
next
  case (DeleteClick checked)
  with assms(1) show ?thesis
    by (simp add: deleteBtn_click_def showMessage_def modify_def)
next
  case ResetYes
  then show ?thesis by (simp add: resetYes_click_world)
next
  case LockClick
  then show ?thesis by (simp add: lockButton_click_world)
qed

lemma downloadFile_without_password_error:
  assumes "sessionPassword s = JNull"
  shows "fst (downloadFile env n s) \<in> {Inl (Error ''File not found in DB''),
                                      Inl (Error ''Invalid encrypted package''),
                                      Inl (Error ''password must be a non-empty string'')}
         \<and> snd (downloadFile env n s) = s"
proof (cases "find (\<lambda>r. name r = n) (files_store s)")
  case None
  then show ?thesis
    by (simp add: downloadFile_def app_defs async_defs)
next
  case (Some r)
  have "decryptBuffer env (Some (package_of r)) JNull (world s)
          = (Inl (Error ''Invalid encrypted package''), world s)
      \<or> decryptBuffer env (Some (package_of r)) JNull (world s)
          = (Inl (Error ''password must be a non-empty string''), world s)"
    by (cases "ciphertext (package_of r)")
       (simp_all add: decryptBuffer_def password_ok_def throw_def)
  with Some assms show ?thesis
    by (auto simp add: downloadFile_def app_defs async_defs)
qed

lemma locked_unlock_attempt_world:
  assumes "pwd \<noteq> []" and "files_store s = sample # rest"
  shows "world (snd (handle env (UnlockClick pwd) s))
           = snd (decryptBuffer env (Some (package_of sample)) (JString pwd) (world s))"
proof -
  obtain r w' where d: "decryptBuffer env (Some (package_of sample)) (JString pwd) (world s) = (r, w')"
    by (cases "decryptBuffer env (Some (package_of sample)) (JString pwd) (world s)")
  show ?thesis
  proof (cases r)
    case (Inl e)
    with d assms(1) tryUnlock_rejects [OF assms(2), of env "JString pwd" e w'] show ?thesis
      by (simp add: unlockBtn_click_def await_def resolve_def)
  next
    case (Inr v)
    with d assms(1) tryUnlock_accepts [OF assms(2), of env "JString pwd" v w'] show ?thesis
      by (simp add: unlockBtn_click_def await_def resolve_def)
  qed
qed

lemma idle_unlock_attempt_world:
  assumes "files_store s = [] \<or> pwd = []"
  shows "world (snd (handle env (UnlockClick pwd) s)) = world s"
proof (cases "pwd = []")
  case True
  then show ?thesis by (simp add: unlockBtn_click_def showMessage_def modify_def)
next
  case False
  with assms have "files_store s = []" by simp
  from tryUnlock_empty_store [OF this, of env "JString pwd"] False show ?thesis
    by (simp add: unlockBtn_click_def await_def resolve_def)
qed

text \<open>
  Claim C6 says that no cryptographic work ever runs while the session is locked.
  The attempt to unlock is made in a locked session and decrypts the first record of
  the store: with the wrong password \<open>px\<close> the session is locked before and after,
  and the key has been imported and derived and the ciphertext handed to \<open>decrypt\<close>.
\<close>

theorem unlock_attempt_runs_crypto_counterexample:
  "unlocked (page0 [record0]) = False
   \<and> calls (world (page0 [record0])) = []
   \<and> unlocked (snd (handle toy_subtle (UnlockClick ''px'') (page0 [record0]))) = False
   \<and> calls (world (snd (handle toy_subtle (UnlockClick ''px'') (page0 [record0])))) =
       [ImportKey [112, 120],
        DeriveKey [0, 1, 2, 3, 4, 5, 6, 7, 8, 9, 10, 11, 12, 13, 14, 15] (JNumber 200000),
        Decrypt [16, 17, 18, 19, 20, 21, 22, 23, 24, 25, 26, 27]
                [104, 105, 112, 119, 0, 1, 2, 3, 4, 5, 6, 7, 8, 9, 10, 11, 12, 13]]"
  by code_simp

text \<open>
  Claim C6, amended. An operation that encrypts or decrypts and is started in a
  locked session is refused before the platform is called: \<open>handleFilesAdded\<close> and
  the two download handlers report that the explorer must be unlocked first and
  change nothing else; \<open>downloadFile\<close> itself, run without a session password, throws
  \<open>File not found in DB\<close>, \<open>Invalid encrypted package\<close> or
  \<open>password must be a non-empty string\<close> and leaves the whole state as it was. No
  handler started in a locked session adds a cryptographic call, except the attempt
  to unlock, whose cryptographic work is the trial decryption of the first record.
\<close>

theorem locked_operations_are_refused:
  assumes "\<not> unlocked s"
  shows "handleFilesAdded env fileList s =
           (Inr (), s\<lparr>messages := messages s @ [(''Unlock explorer first before adding files.'', ''error'')]\<rparr>)
       \<and> actionBtn_click env n s =
           (Inr (), s\<lparr>messages := messages s @ [(''Unlock explorer first to download files.'', ''error'')]\<rparr>)
       \<and> downloadBtn_click env checked s =
           (Inr (), s\<lparr>messages := messages s @ [(''Unlock explorer first.'', ''error'')]\<rparr>)
       \<and> calls (world (snd (handleFilesAdded env fileList s))) = calls (world s)
       \<and> calls (world (snd (actionBtn_click env n s))) = calls (world s)
       \<and> calls (world (snd (downloadBtn_click env checked s))) = calls (world s)
       \<and> (sessionPassword s = JNull \<longrightarrow>
            fst (downloadFile env n s) \<in> {Inl (Error ''File not found in DB''),
                                         Inl (Error ''Invalid encrypted package''),
                                         Inl (Error ''password must be a non-empty string'')}
            \<and> snd (downloadFile env n s) = s)
       \<and> (\<forall>ev. (\<forall>pwd. ev \<noteq> UnlockClick pwd) \<longrightarrow>
            calls (world (snd (handle env ev s))) = calls (world s))
       \<and> (\<forall>pwd sample rest. pwd \<noteq> [] \<and> files_store s = sample # rest \<longrightarrow>
            world (snd (handle env (UnlockClick pwd) s))
              = snd (decryptBuffer env (Some (package_of sample)) (JString pwd) (world s)))
       \<and> (\<forall>pwd. files_store s = [] \<or> pwd = [] \<longrightarrow>
            world (snd (handle env (UnlockClick pwd) s)) = world s)"
proof -
  have gates: "handleFilesAdded env fileList s =
           (Inr (), s\<lparr>messages := messages s @ [(''Unlock explorer first before adding files.'', ''error'')]\<rparr>)"
    "actionBtn_click env n s =
           (Inr (), s\<lparr>messages := messages s @ [(''Unlock explorer first to download files.'', ''error'')]\<rparr>)"
    "downloadBtn_click env checked s =
           (Inr (), s\<lparr>messages := messages s @ [(''Unlock explorer first.'', ''error'')]\<rparr>)"
    using assms
    by (simp_all add: handleFilesAdded_def actionBtn_click_def downloadBtn_click_def
          showMessage_def modify_def)
  have others: "\<forall>ev. (\<forall>pwd. ev \<noteq> UnlockClick pwd) \<longrightarrow>
            calls (world (snd (handle env ev s))) = calls (world s)"
    using assms by (simp add: locked_handle_no_calls)
  have trial: "\<forall>pwd sample rest. pwd \<noteq> [] \<and> files_store s = sample # rest \<longrightarrow>
            world (snd (handle env (UnlockClick pwd) s))
              = snd (decryptBuffer env (Some (package_of sample)) (JString pwd) (world s))"
    using locked_unlock_attempt_world by blast
  have idle: "\<forall>pwd. files_store s = [] \<or> pwd = [] \<longrightarrow>
            world (snd (handle env (UnlockClick pwd) s)) = world s"
    using idle_unlock_attempt_world by blast
  have dl: "sessionPassword s = JNull \<longrightarrow>
            fst (downloadFile env n s) \<in> {Inl (Error ''File not found in DB''),
                                         Inl (Error ''Invalid encrypted package''),
                                         Inl (Error ''password must be a non-empty string'')}
            \<and> snd (downloadFile env n s) = s"
    using downloadFile_without_password_error [of s env n] by blast
  have quiet: "calls (world (snd (handleFilesAdded env fileList s))) = calls (world s)"
    "calls (world (snd (actionBtn_click env n s))) = calls (world s)"
    "calls (world (snd (downloadBtn_click env checked s))) = calls (world s)"
    by (simp_all add: gates)
  from gates quiet dl others trial idle show ?thesis by blast
qed

theorem locked_operations_are_refused_witness:
  "\<not> unlocked (page0 [record0])
   \<and> handleFilesAdded toy_subtle [\<lparr>file_name = ''a.txt'', file_type = ''text/plain'', file_bytes = [1, 2]\<rparr>]
        (page0 [record0]) =
       (Inr (), (page0 [record0])\<lparr>messages := messages (page0 [record0])
                   @ [(''Unlock explorer first before adding files.'', ''error'')]\<rparr>)
   \<and> calls (world (snd (actionBtn_click toy_subtle ''hi.txt'' (page0 [record0])))) = calls (world (page0 [record0]))
   \<and> fst (downloadFile toy_subtle ''hi.txt'' (page0 [record0]))
        \<in> {Inl (Error ''File not found in DB''), Inl (Error ''Invalid encrypted package''),
            Inl (Error ''password must be a non-empty string'')}
   \<and> snd (downloadFile toy_subtle ''hi.txt'' (page0 [record0])) = page0 [record0]
   \<and> calls (world (snd (handle toy_subtle (DeleteClick [''hi.txt'']) (page0 [record0]))))
        = calls (world (page0 [record0]))
   \<and> world (snd (handle toy_subtle (UnlockClick ''px'') (page0 [record0])))
        = snd (decryptBuffer toy_subtle (Some (package_of record0)) (JString ''px'') (world (page0 [record0])))"
proof -
  have l: "\<not> unlocked (page0 [record0])" by (simp add: page0_locked)
  have p: "sessionPassword (page0 [record0]) = JNull" by (simp add: page0_locked)
  have d: "\<forall>pwd. DeleteClick [''hi.txt''] \<noteq> UnlockClick pwd" by simp
  have u: "''px'' \<noteq> [] \<and> files_store (page0 [record0]) = record0 # []" by (simp add: page0_locked)
  from locked_operations_are_refused [OF l, of toy_subtle
         "[\<lparr>file_name = ''a.txt'', file_type = ''text/plain'', file_bytes = [1, 2]\<rparr>]" "''hi.txt''" "[]"] l p d u
  show ?thesis by blast
qed

subsection \<open>The invariant of the session\<close>

lemma keeps_sessionI: "(\<And>s. session (snd (m s)) = session s) \<Longrightarrow> keeps_session m"
  by (simp add: keeps_session_def)

lemma keeps_sessionD: "keeps_session m \<Longrightarrow> session (snd (m s)) = session s"
  by (simp add: keeps_session_def)

lemma keeps_resolve: "keeps_session (resolve x)"
  by (simp add: keeps_session_def resolve_def)

lemma keeps_throw: "keeps_session (throw e)"
  by (simp add: keeps_session_def throw_def)

lemma keeps_await:
  assumes "keeps_session m" and "\<And>x. keeps_session (f x)"
  shows "keeps_session (await m f)"
proof (rule keeps_sessionI)
  fix s
  obtain r s' where ms: "m s = (r, s')" by (cases "m s")
  have s': "session s' = session s" using keeps_sessionD [OF assms(1), of s] ms by simp
  show "session (snd (await m f s)) = session s"
  proof (cases r)
    case (Inl e)
    with ms s' show ?thesis by (simp add: await_def)
  next
    case (Inr x)
    with ms s' keeps_sessionD [OF assms(2), of x s'] show ?thesis by (simp add: await_def)
  qed
qed

lemma keeps_try_catch:
  assumes "keeps_session m" and "\<And>e. keeps_session (h e)"
  shows "keeps_session (try_catch m h)"
proof (rule keeps_sessionI)
  fix s
  obtain r s' where ms: "m s = (r, s')" by (cases "m s")
  have s': "session s' = session s" using keeps_sessionD [OF assms(1), of s] ms by simp
  show "session (snd (try_catch m h s)) = session s"
  proof (cases r)
    case (Inl e)
    with ms s' keeps_sessionD [OF assms(2), of e s'] show ?thesis by (simp add: try_catch_def)
  next
    case (Inr x)
    with ms s' show ?thesis by (simp add: try_catch_def)
  qed
qed

lemma keeps_for_each:
  assumes "\<And>x. keeps_session (body x)"
  shows "keeps_session (for_each xs body)"
  by (induction xs) (simp_all add: keeps_resolve keeps_await assms)

lemma keeps_reading:
  assumes "\<And>c. keeps_session (m c)"
  shows "keeps_session (\<lambda>s. m (g s) s)"
  using assms by (simp add: keeps_session_def)

lemma keeps_if:
  assumes "keeps_session a" and "keeps_session b"
  shows "keeps_session (\<lambda>s. if c s then a s else b s)"
  using assms by (simp add: keeps_session_def)

lemma keeps_in_world: "keeps_session (in_world m)"
  by (simp add: keeps_session_def in_world_def session_def split: prod.splits)

lemma keeps_showMessage: "keeps_session (showMessage msg type)"
  by (simp add: keeps_session_def showMessage_def modify_def session_def)

lemma keeps_confirm: "keeps_session (confirm msg)"
  by (simp add: keeps_session_def confirm_def session_def split: list.splits)

lemma keeps_getFile: "keeps_session (getFile n)"
  by (simp add: keeps_session_def getFile_def resolve_def)

lemma keeps_getAllFiles: "keeps_session getAllFiles"
  by (simp add: keeps_session_def getAllFiles_def resolve_def)

lemma keeps_saveFile: "keeps_session (saveFile r)"
  by (simp add: keeps_session_def saveFile_def modify_def session_def async_defs)

lemma keeps_deleteFile: "keeps_session (deleteFile n)"
  by (simp add: keeps_session_def deleteFile_def modify_def session_def async_defs)

lemma keeps_save_blob: "keeps_session (save_blob n bytes)"
  by (simp add: keeps_session_def save_blob_def modify_def session_def)

lemma keeps_refreshFileList: "keeps_session refreshFileList"
  by (simp add: keeps_session_def refreshFileList_def getAllFiles_def modify_def session_def async_defs)

lemma keeps_add_file: "keeps_session (add_file env f)"
  unfolding add_file_def
proof (rule keeps_try_catch)
  show "keeps_session
     (await (getFile (file_name f))
       (\<lambda>existing.
           await (case existing of None \<Rightarrow> resolve True
                  | Some x \<Rightarrow> confirm (''A file named '' @ [CHR 0x22] @ file_name f @ [CHR 0x22] @ '' already exists. Overwrite?''))
            (\<lambda>override.
                if \<not> override then resolve ()
                else (\<lambda>s. await (in_world (createEncryptedFileRecord env (file_name f)
                                             (JArrayBuffer (file_bytes f)) (sessionPassword s)))
                            (\<lambda>r. await (saveFile (r\<lparr>mimeType := file_type f\<rparr>))
                                   (\<lambda>_. showMessage (''Saved: '' @ file_name f) ''info''))
                            s))))"
  proof (rule keeps_await [OF keeps_getFile])
    fix existing
    show "keeps_session
        (await (case existing of None \<Rightarrow> resolve True
                | Some x \<Rightarrow> confirm (''A file named '' @ [CHR 0x22] @ file_name f @ [CHR 0x22] @ '' already exists. Overwrite?''))
          (\<lambda>override.
              if \<not> override then resolve ()
              else (\<lambda>s. await (in_world (createEncryptedFileRecord env (file_name f)
                                           (JArrayBuffer (file_bytes f)) (sessionPassword s)))
                          (\<lambda>r. await (saveFile (r\<lparr>mimeType := file_type f\<rparr>))
                                 (\<lambda>_. showMessage (''Saved: '' @ file_name f) ''info''))
                          s)))"
    proof (rule keeps_await)
      show "keeps_session (case existing of None \<Rightarrow> resolve True
                | Some x \<Rightarrow> confirm (''A file named '' @ [CHR 0x22] @ file_name f @ [CHR 0x22] @ '' already exists. Overwrite?''))"
        by (cases existing) (simp_all add: keeps_resolve keeps_confirm)
    next
      fix override
      have "keeps_session (\<lambda>s. await (in_world (createEncryptedFileRecord env (file_name f)
                                           (JArrayBuffer (file_bytes f)) (sessionPassword s)))
                          (\<lambda>r. await (saveFile (r\<lparr>mimeType := file_type f\<rparr>))
                                 (\<lambda>_. showMessage (''Saved: '' @ file_name f) ''info''))
                          s)"
        by (rule keeps_reading [where g = sessionPassword])
           (intro keeps_await keeps_in_world keeps_saveFile keeps_showMessage)
      then show "keeps_session (if \<not> override then resolve ()
              else (\<lambda>s. await (in_world (createEncryptedFileRecord env (file_name f)
                                           (JArrayBuffer (file_bytes f)) (sessionPassword s)))
                          (\<lambda>r. await (saveFile (r\<lparr>mimeType := file_type f\<rparr>))
                                 (\<lambda>_. showMessage (''Saved: '' @ file_name f) ''info''))
                          s))"
        by (simp add: keeps_resolve)
    qed
  qed
next
  fix e
  show "keeps_session (showMessage (''Failed to add '' @ file_name f @ '': '' @ message e) ''error'')"
    by (rule keeps_showMessage)
qed

lemma keeps_handleFilesAdded: "keeps_session (handleFilesAdded env fileList)"
  unfolding handleFilesAdded_def
  by (rule keeps_if)
     (intro keeps_showMessage keeps_await keeps_for_each keeps_add_file keeps_refreshFileList)+

lemma keeps_download_tail:
  "keeps_session
     (await (if \<not> ok result
             then confirm ''Integrity check failed (file may be tampered). Download anyway?''
             else resolve True)
        (\<lambda>proceed. if \<not> proceed then resolve ()
           else await (save_blob (name r) (arrayBuffer result))
                  (\<lambda>_. showMessage (''Downloaded: '' @ name r) ''info'')))"
proof (rule keeps_await)
  show "keeps_session (if \<not> ok result
             then confirm ''Integrity check failed (file may be tampered). Download anyway?''
             else resolve True)"
    by (simp add: keeps_resolve keeps_confirm)
next
  fix proceed
  have "keeps_session (await (save_blob (name r) (arrayBuffer result))
                  (\<lambda>_. showMessage (''Downloaded: '' @ name r) ''info''))"
    by (intro keeps_await keeps_save_blob keeps_showMessage)
  then show "keeps_session (if \<not> proceed then resolve ()
           else await (save_blob (name r) (arrayBuffer result))
                  (\<lambda>_. showMessage (''Downloaded: '' @ name r) ''info''))"
    by (simp add: keeps_resolve)
qed

lemma keeps_downloadFile: "keeps_session (downloadFile env n)"
  unfolding downloadFile_def
proof (rule keeps_await [OF keeps_getFile])
  fix found
  show "keeps_session
        (case found of None \<Rightarrow> throw (Error ''File not found in DB'')
         | Some r \<Rightarrow>
             \<lambda>s. await (in_world (decryptBuffer env (Some (package_of r)) (sessionPassword s)))
                   (\<lambda>result.
                       await (if \<not> ok result
                              then confirm ''Integrity check failed (file may be tampered). Download anyway?''
                              else resolve True)
                        (\<lambda>proceed.
                            if \<not> proceed then resolve ()
                            else await (save_blob (name r) (arrayBuffer result))
                                  (\<lambda>_. showMessage (''Downloaded: '' @ name r) ''info'')))
                   s)"
  proof (cases found)
    case None
    then show ?thesis by (simp add: keeps_throw)
  next
    case (Some r)
    have "keeps_session (\<lambda>s. await (in_world (decryptBuffer env (Some (package_of r)) (sessionPassword s)))
                   (\<lambda>result.
                       await (if \<not> ok result
                              then confirm ''Integrity check failed (file may be tampered). Download anyway?''
                              else resolve True)
                        (\<lambda>proceed.
                            if \<not> proceed then resolve ()
                            else await (save_blob (name r) (arrayBuffer result))
                                  (\<lambda>_. showMessage (''Downloaded: '' @ name r) ''info'')))
                   s)"
      by (rule keeps_reading [where g = sessionPassword])
         (intro keeps_await keeps_in_world keeps_download_tail)
    with Some show ?thesis by simp
  qed
qed

lemma keeps_actionBtn_click: "keeps_session (actionBtn_click env n)"
  unfolding actionBtn_click_def
  by (rule keeps_if) (intro keeps_showMessage keeps_try_catch keeps_downloadFile)+

lemma keeps_downloadSelected: "keeps_session (downloadSelected env checked)"
  unfolding downloadSelected_def
  by (simp add: keeps_showMessage keeps_for_each keeps_try_catch keeps_downloadFile)

lemma keeps_downloadBtn_click: "keeps_session (downloadBtn_click env checked)"
  unfolding downloadBtn_click_def
  by (rule keeps_if) (intro keeps_showMessage keeps_downloadSelected)+

lemma keeps_deleteSelected: "keeps_session (deleteSelected checked)"
proof -
  have loop: "keeps_session (for_each checked (\<lambda>n.
                  try_catch (await (deleteFile n) (\<lambda>_. showMessage (''Deleted: '' @ n) ''info''))
                    (\<lambda>err. showMessage (''Failed to delete '' @ n @ '': '' @ message err) ''error'')))"
    by (intro keeps_for_each keeps_try_catch keeps_await keeps_deleteFile keeps_showMessage)
  have rest: "keeps_session (if \<not> ok' then resolve ()
           else await (for_each checked (\<lambda>n.
                  try_catch (await (deleteFile n) (\<lambda>_. showMessage (''Deleted: '' @ n) ''info''))
                    (\<lambda>err. showMessage (''Failed to delete '' @ n @ '': '' @ message err) ''error'')))
                (\<lambda>_. refreshFileList))" for ok'
    using loop by (simp add: keeps_resolve keeps_await keeps_refreshFileList)
  show ?thesis
    unfolding deleteSelected_def
    using rest by (simp add: keeps_showMessage keeps_await keeps_confirm)
qed

lemma keeps_deleteBtn_click: "keeps_session (deleteBtn_click checked)"
  unfolding deleteBtn_click_def
  by (rule keeps_if) (intro keeps_showMessage keeps_deleteSelected)+

lemma keeps_files_chosen: "keeps_session (files_chosen env files)"
  by (simp add: files_chosen_def keeps_handleFilesAdded keeps_resolve)



lemma keeps_invariant:
  "keeps_session m \<Longrightarrow> locked_without_password s \<Longrightarrow> locked_without_password (snd (m s))"
  using keeps_sessionD [of m s] by (simp add: locked_without_password_def session_def)

lemma setUnlockedState_False:
  "setUnlockedState False s = (Inr (), s\<lparr>unlocked := False, sessionPassword := JNull\<rparr>)"
  by (simp add: setUnlockedState_def modify_def await_def)

lemma setUnlockedState_True:
  "setUnlockedState True s = (Inr (), s\<lparr>unlocked := True\<rparr>)"
  by (simp add: setUnlockedState_def modify_def await_def)

lemma tryUnlock_invariant: "locked_without_password (snd (tryUnlock env password s))"
proof (cases "files_store s")
  case Nil
  then show ?thesis
    by (simp add: tryUnlock_empty_store locked_without_password_def)
next
  case (Cons sample rest)
  obtain r w' where d: "decryptBuffer env (Some (package_of sample)) password (world s) = (r, w')"
    by (cases "decryptBuffer env (Some (package_of sample)) password (world s)")
  show ?thesis
  proof (cases r)
    case (Inl e)
    with d tryUnlock_rejects [OF Cons, of env password e w'] show ?thesis
      by (simp add: locked_without_password_def)
  next
    case (Inr v)
    with d tryUnlock_accepts [OF Cons, of env password v w'] show ?thesis
      by (simp add: locked_without_password_def)
  qed
qed

lemma unlockBtn_click_invariant:
  "locked_without_password s \<Longrightarrow> locked_without_password (snd (unlockBtn_click env pwd s))"
proof (cases "pwd = []")
  case True
  assume "locked_without_password s"
  with True show ?thesis
    by (simp add: unlockBtn_click_def keeps_invariant [OF keeps_showMessage])
next
  case False
  obtain r s' where t: "tryUnlock env (JString pwd) s = (r, s')"
    by (cases "tryUnlock env (JString pwd) s")
  with tryUnlock_invariant [of env "JString pwd" s] have "locked_without_password s'" by simp
  with False t show ?thesis
    by (cases r) (simp_all add: unlockBtn_click_def await_def resolve_def)
qed

lemma delete_all_run:
  "\<exists>s'. for_each xs (\<lambda>f. await (deleteFile (name f)) (\<lambda>_. resolve ())) s = (Inr (), s')"
proof (induction xs arbitrary: s)
  case Nil
  then show ?case by (simp add: resolve_def)
next
  case (Cons x xs)
  obtain s1 where d: "await (deleteFile (name x)) (\<lambda>_. resolve ()) s = (Inr (), s1)"
    by (simp add: deleteFile_def modify_def async_defs)
  from Cons.IH [of s1] obtain s' where
    "for_each xs (\<lambda>f. await (deleteFile (name f)) (\<lambda>_. resolve ())) s1 = (Inr (), s')" by blast
  with d show ?case by (simp add: await_def)
qed

lemma resetYes_click_locks:
  "\<not> unlocked (snd (resetYes_click s)) \<and> sessionPassword (snd (resetYes_click s)) = JNull"
proof -
  from delete_all_run [of "files_store s" s] obtain s' where
    "for_each (files_store s) (\<lambda>f. await (deleteFile (name f)) (\<lambda>_. resolve ())) s = (Inr (), s')"
    by blast
  then show ?thesis
    by (simp add: resetYes_click_def getAllFiles_def setUnlockedState_False showMessage_def
          modify_def async_defs)
qed

lemma page_load_locked:
  "\<not> unlocked (page_load store answers saved w) \<and> sessionPassword (page_load store answers saved w) = JNull"
  by (simp add: page_load_def init_def setUnlockedState_False refreshFileList_def getAllFiles_def
        modify_def async_defs)

lemma lockButton_click_locks:
  "\<not> unlocked (snd (lockButton_click s)) \<and> sessionPassword (snd (lockButton_click s)) = JNull"
  by (simp add: lockButton_click_def page_load_locked)

lemma handle_invariant:
  assumes "locked_without_password s"
  shows "locked_without_password (snd (handle env ev s))"
proof (cases ev)
  case (UnlockClick pwd)
  with assms show ?thesis by (simp add: unlockBtn_click_invariant)
next
  case (FilesChosen files)
  with assms show ?thesis by (simp add: keeps_invariant [OF keeps_files_chosen])
next
  case (ActionClick n)
  with assms show ?thesis by (simp add: keeps_invariant [OF keeps_actionBtn_click])
next
  case (DownloadClick checked)
  with assms show ?thesis by (simp add: keeps_invariant [OF keeps_downloadBtn_click])
next
  case (DeleteClick checked)
  with assms show ?thesis by (simp add: keeps_invariant [OF keeps_deleteBtn_click])
next
  case ResetYes
  then show ?thesis by (simp add: locked_without_password_def resetYes_click_locks)
next
  case LockClick
  then show ?thesis by (simp add: locked_without_password_def lockButton_click_locks)
qed

lemma reachable_invariant: "reachable env s \<Longrightarrow> locked_without_password s"
proof (induction rule: reachable.induct)
  case (loaded store answers saved w)
  then show ?case by (simp add: locked_without_password_def page_load_locked)
next
  case (handled s ev)
  then show ?case by (simp add: handle_invariant)
qed

text \<open>
  Claim C9. In every state a page can reach, a locked session holds no password.
  Every way from unlocked to locked clears it in the same step: \<open>setUnlockedState(false)\<close>
  sets \<open>unlocked\<close> to false and \<open>sessionPassword\<close> to \<open>null\<close>, and so do the lock button,
  which reloads the page, and the reset.
\<close>

theorem locked_session_has_no_password:
  assumes "reachable env s"
  shows "(\<not> unlocked s \<longrightarrow> sessionPassword s = JNull)
       \<and> setUnlockedState False s = (Inr (), s\<lparr>unlocked := False, sessionPassword := JNull\<rparr>)
       \<and> \<not> unlocked (snd (lockButton_click s)) \<and> sessionPassword (snd (lockButton_click s)) = JNull
       \<and> \<not> unlocked (snd (resetYes_click s)) \<and> sessionPassword (snd (resetYes_click s)) = JNull
       \<and> (\<forall>ev. \<not> unlocked (snd (handle env ev s)) \<longrightarrow> sessionPassword (snd (handle env ev s)) = JNull)"
proof -
  have inv: "locked_without_password s"
    using assms by (rule reachable_invariant)
  have "locked_without_password (snd (handle env ev s))" for ev
    using inv by (rule handle_invariant)
  then have "\<forall>ev. \<not> unlocked (snd (handle env ev s)) \<longrightarrow> sessionPassword (snd (handle env ev s)) = JNull"
    by (simp add: locked_without_password_def)
  with inv show ?thesis
    by (simp add: locked_without_password_def setUnlockedState_False lockButton_click_locks
          resetYes_click_locks)
qed

theorem locked_session_has_no_password_witness:
  "reachable toy_subtle (snd (handle toy_subtle (UnlockClick ''pw'') (page0 [])))
   \<and> unlocked (snd (handle toy_subtle (UnlockClick ''pw'') (page0 [])))
   \<and> sessionPassword (snd (handle toy_subtle (UnlockClick ''pw'') (page0 []))) = JString ''pw''
   \<and> \<not> unlocked (snd (lockButton_click (snd (handle toy_subtle (UnlockClick ''pw'') (page0 [])))))
   \<and> sessionPassword (snd (lockButton_click (snd (handle toy_subtle (UnlockClick ''pw'') (page0 []))))) = JNull
   \<and> \<not> unlocked (page0 [record0]) \<and> sessionPassword (page0 [record0]) = JNull"
proof -
  have r0: "reachable toy_subtle (page0 [])" and r1: "reachable toy_subtle (page0 [record0])"
    unfolding page0_def by (rule reachable.loaded)+
  have r: "reachable toy_subtle (snd (handle toy_subtle (UnlockClick ''pw'') (page0 [])))"
    using r0 by (rule reachable.handled)
  have e: "files_store (page0 []) = []" by (simp add: page0_locked)
  have u: "unlocked (snd (handle toy_subtle (UnlockClick ''pw'') (page0 [])))
           \<and> sessionPassword (snd (handle toy_subtle (UnlockClick ''pw'') (page0 []))) = JString ''pw''"
    by (simp add: unlockBtn_click_def tryUnlock_empty_store [OF e] await_def resolve_def)
  have l: "\<not> unlocked (page0 [record0])" by (simp add: page0_locked)
  from locked_session_has_no_password [OF r] locked_session_has_no_password [OF r1] r u l
  show ?thesis by blast
qed

end
